theory Spec2Isabelle
  imports Complex_Main "HOL-Library.Word" "HOL-Library.Extended_Nat"
begin

unbundle bit_operations_syntax

section \<open>Data model\<close>

text \<open>
  The page scripts work on JavaScript Numbers. A finite Number is modelled by the real
  number it denotes; band powers, ML scores and activeness samples are finite Numbers,
  \<^typ>\<open>real\<close>. Where the source does arithmetic on them (the band normalizer, the
  activeness state, the classifier of the full page, the fortune seed), the operations are
  those of the next section: every result is rounded to a double and may overflow to an
  infinity. The classifier of the reduced page only compares its inputs with constants.
  Integers that the source pushes through the bitwise operator \<open>^\<close> are modelled as
  \<^typ>\<open>int\<close> and wrapped to 32 bits where the source does.
\<close>

record brainwaves =
  alpha :: real
  beta :: real
  gamma :: real
  delta :: real
  theta :: real

record mlAnalysis =
  focus :: real
  clear :: real
  meditation :: real
  dream :: real

section \<open>JavaScript Numbers\<close>

text \<open>
  A Number is an IEEE 754 binary64 value. A finite value is modelled by the real number it
  denotes, the infinities and \<open>NaN\<close> by constructors of their own. The result of an
  arithmetic operation is the exact result rounded to the nearest double, ties to the
  even significand; a rounded result of magnitude \<open>2^1024\<close> or more is an infinity.
  Negative zero is identified with zero.
\<close>

datatype number = Fin real | PInf | NInf | NaN

definition round_half_even :: "real \<Rightarrow> int" where
  "round_half_even y =
     (let f = \<lfloor>y\<rfloor>
      in if y - of_int f < 1 / 2 then f
         else if y - of_int f > 1 / 2 then f + 1
         else if even f then f else f + 1)"

text \<open>
  The binade of \<open>x\<close> is the \<open>e\<close> with \<open>2^e \<le> |x| < 2^(e+1)\<close>; doubles in it are spaced
  \<open>2^(e-52)\<close> apart, and below \<open>2^(-1022)\<close> the spacing stays \<open>2^(-1074)\<close>.
\<close>

definition binade :: "real \<Rightarrow> int" where
  "binade x = \<lfloor>log 2 \<bar>x\<bar>\<rfloor>"

definition ulp :: "real \<Rightarrow> real" where
  "ulp x = 2 powr of_int (max (binade x) (- 1022) - 52)"

definition fl :: "real \<Rightarrow> real" where
  "fl x = (if x = 0 then 0 else of_int (round_half_even (x / ulp x)) * ulp x)"

definition overflow_threshold :: real where
  "overflow_threshold = 2 ^ 1024"

definition to_number :: "real \<Rightarrow> number" where
  "to_number x =
     (let r = fl x
      in if r \<ge> overflow_threshold then PInf
         else if r \<le> - overflow_threshold then NInf
         else Fin r)"

definition is_double :: "real \<Rightarrow> bool" where
  "is_double x = (fl x = x \<and> \<bar>x\<bar> < overflow_threshold)"

text \<open>
  Addition, multiplication and division of Numbers, with the special values as
  IEEE 754 has them. A zero divisor is taken as \<open>+0\<close>.
\<close>

definition inf_of_sign :: "real \<Rightarrow> number" where
  "inf_of_sign s = (if s > 0 then PInf else if s < 0 then NInf else NaN)"

fun fadd :: "number \<Rightarrow> number \<Rightarrow> number" where
  "fadd (Fin x) (Fin y) = to_number (x + y)"
| "fadd NaN b = NaN"
| "fadd a NaN = NaN"
| "fadd PInf NInf = NaN"
| "fadd NInf PInf = NaN"
| "fadd PInf b = PInf"
| "fadd a PInf = PInf"
| "fadd NInf b = NInf"
| "fadd a NInf = NInf"

fun fmul :: "number \<Rightarrow> number \<Rightarrow> number" where
  "fmul (Fin x) (Fin y) = to_number (x * y)"
| "fmul NaN b = NaN"
| "fmul a NaN = NaN"
| "fmul PInf (Fin y) = inf_of_sign y"
| "fmul NInf (Fin y) = inf_of_sign (- y)"
| "fmul (Fin x) PInf = inf_of_sign x"
| "fmul (Fin x) NInf = inf_of_sign (- x)"
| "fmul PInf PInf = PInf"
| "fmul NInf NInf = PInf"
| "fmul PInf NInf = NInf"
| "fmul NInf PInf = NInf"

fun fdiv :: "number \<Rightarrow> number \<Rightarrow> number" where
  "fdiv (Fin x) (Fin y) = (if y = 0 then inf_of_sign x else to_number (x / y))"
| "fdiv NaN b = NaN"
| "fdiv a NaN = NaN"
| "fdiv (Fin x) PInf = Fin 0"
| "fdiv (Fin x) NInf = Fin 0"
| "fdiv PInf (Fin y) = (if y \<ge> 0 then PInf else NInf)"
| "fdiv NInf (Fin y) = (if y \<ge> 0 then NInf else PInf)"
| "fdiv PInf b = NaN"
| "fdiv NInf b = NaN"

text \<open>The comparisons \<open><\<close>, \<open>>\<close>, \<open>>=\<close> and \<open>===\<close>; every comparison with \<open>NaN\<close> is false.\<close>

fun num_less :: "number \<Rightarrow> number \<Rightarrow> bool" where
  "num_less (Fin x) (Fin y) = (x < y)"
| "num_less NaN b = False"
| "num_less a NaN = False"
| "num_less NInf NInf = False"
| "num_less NInf b = True"
| "num_less a PInf = (a \<noteq> PInf)"
| "num_less a b = False"

definition strict_eq :: "number \<Rightarrow> number \<Rightarrow> bool" where
  "strict_eq a b = (a \<noteq> NaN \<and> a = b)"

definition num_gt :: "number \<Rightarrow> number \<Rightarrow> bool" where
  "num_gt a b = num_less b a"

definition num_ge :: "number \<Rightarrow> number \<Rightarrow> bool" where
  "num_ge a b = (num_less b a \<or> strict_eq a b)"

section \<open>Band normalizer\<close>

text \<open>
  \<open>normalizeBrainwaves\<close>: divide each band by the sum of the five, unless the sum is 0.
  The argument and the result are objects of five Numbers; the sum is taken from left to
  right and rounded after every addition, so it can be an infinity.
\<close>

record bandNumbers =
  nalpha :: number
  nbeta :: number
  ngamma :: number
  ndelta :: number
  ntheta :: number

definition band_total :: "bandNumbers \<Rightarrow> number" where
  "band_total r = fadd (fadd (fadd (fadd (nalpha r) (nbeta r)) (ngamma r)) (ndelta r)) (ntheta r)"

definition normalizeBrainwaves :: "bandNumbers \<Rightarrow> bandNumbers" where
  "normalizeBrainwaves rawValues =
     (let total = fadd (fadd (fadd (fadd (nalpha rawValues) (nbeta rawValues))
                                   (ngamma rawValues))
                             (ndelta rawValues))
                       (ntheta rawValues)
      in if strict_eq total (Fin 0) then rawValues
         else \<lparr> nalpha = fdiv (nalpha rawValues) total,
                nbeta = fdiv (nbeta rawValues) total,
                ngamma = fdiv (ngamma rawValues) total,
                ndelta = fdiv (ndelta rawValues) total,
                ntheta = fdiv (ntheta rawValues) total \<rparr>)"

text \<open>The object of five finite Numbers.\<close>

definition finite_bands :: "real \<Rightarrow> real \<Rightarrow> real \<Rightarrow> real \<Rightarrow> real \<Rightarrow> bandNumbers" where
  "finite_bands a b g d t =
     \<lparr> nalpha = Fin a, nbeta = Fin b, ngamma = Fin g, ndelta = Fin d, ntheta = Fin t \<rparr>"

section \<open>Activeness state\<close>

text \<open>
  \<open>getActivenessState\<close>: the \<open>forEach\<close> loop keeps three counters; one step of it is
  \<open>activeness_step\<close>. The thresholds are the Numbers that the expressions \<open>2/3\<close> and
  \<open>1/3\<close> evaluate to, and the three ratios are quotients of Numbers. A missing array
  (\<open>null\<close>, \<open>undefined\<close>) is \<open>None\<close>; the result \<open>null\<close> is \<open>None\<close>. The doubles
  \<open>double_two_thirds\<close> and \<open>double_one_third\<close> are \<open>0.6666666666666666\<close> and
  \<open>0.3333333333333333\<close>.
\<close>

fun activeness_step :: "real \<Rightarrow> nat \<times> nat \<times> nat \<Rightarrow> nat \<times> nat \<times> nat" where
  "activeness_step v (activeCount, clearCount, meditationCount) =
     (if num_ge (Fin v) (fdiv (Fin 2) (Fin 3))
      then (activeCount + 1, clearCount, meditationCount)
      else if num_ge (Fin v) (fdiv (Fin 1) (Fin 3))
      then (activeCount, clearCount + 1, meditationCount)
      else (activeCount, clearCount, meditationCount + 1))"

definition getActivenessState :: "real list option \<Rightarrow> string option" where
  "getActivenessState activenessArray =
     (case activenessArray of
        None \<Rightarrow> None
      | Some arr \<Rightarrow>
          if length arr = 0 then None
          else
            (case fold activeness_step arr (0, 0, 0) of
               (activeCount, clearCount, meditationCount) \<Rightarrow>
                 let total = length arr;
                     activeRatio = fdiv (Fin (real activeCount)) (Fin (real total));
                     clearRatio = fdiv (Fin (real clearCount)) (Fin (real total));
                     meditationRatio = fdiv (Fin (real meditationCount)) (Fin (real total))
                 in if num_ge activeRatio (fdiv (Fin 2) (Fin 3)) then Some ''active''
                    else if num_ge clearRatio (fdiv (Fin 2) (Fin 3)) then Some ''clear''
                    else if num_ge meditationRatio (fdiv (Fin 2) (Fin 3)) then Some ''meditation''
                    else Some ''generic''))"

definition double_two_thirds :: real where
  "double_two_thirds = 6004799503160661 / 2 ^ 53"

definition double_one_third :: real where
  "double_one_third = 6004799503160661 / 2 ^ 54"

section \<open>Dominant pattern, reduced page\<close>

text \<open>
  \<open>getDominantPattern\<close> of \<open>brainwave.js\<close>: ML scores first, each only when it is the
  largest of the four, then the bands \<open>alpha, beta, gamma, theta\<close> against the cutoff 0.25.
\<close>

definition Math_max4 :: "real \<Rightarrow> real \<Rightarrow> real \<Rightarrow> real \<Rightarrow> real" where
  "Math_max4 a b c d = max (max (max a b) c) d"

fun reduced_step :: "string \<times> real \<Rightarrow> string \<times> real \<Rightarrow> string \<times> real" where
  "reduced_step (wave, v) (maxWave, maxValue) =
     (if v > maxValue \<and> v > 0.25 then (''high_'' @ wave, v) else (maxWave, maxValue))"

definition reduced_waves :: "brainwaves \<Rightarrow> (string \<times> real) list" where
  "reduced_waves b =
     [(''alpha'', alpha b), (''beta'', beta b), (''gamma'', gamma b), (''theta'', theta b)]"

definition band_fallback :: "brainwaves \<Rightarrow> string" where
  "band_fallback b = fst (fold reduced_step (reduced_waves b) (''balanced'', 0))"

definition getDominantPattern_reduced :: "brainwaves \<Rightarrow> mlAnalysis \<Rightarrow> string" where
  "getDominantPattern_reduced b ml =
     (let mlMax = Math_max4 (focus ml) (clear ml) (meditation ml) (dream ml)
      in if meditation ml = mlMax \<and> meditation ml > 0.6 then ''high_meditation''
         else if focus ml = mlMax \<and> focus ml > 0.7 then ''high_focus''
         else if clear ml = mlMax \<and> clear ml > 0.7 then ''high_clear''
         else if dream ml = mlMax \<and> dream ml > 0.7 then ''high_dream''
         else band_fallback b)"

section \<open>Dominant pattern, full page\<close>

text \<open>
  The two constants of the page are decimal literals, which denote the nearest doubles.
\<close>

definition weighting_power :: number where
  "weighting_power = to_number 0.5"

definition dominant_cutoff :: number where
  "dominant_cutoff = to_number 0.225"

text \<open>
  \<open>Math.pow\<close>. The language standard leaves its precision to the implementation; the
  result is taken as the exact power rounded to the nearest double. For the exponent
  \<open>0.5\<close>, the only one the page uses, this is the correctly rounded square root.
  The special cases are those of the standard.
\<close>

fun Math_pow :: "number \<Rightarrow> number \<Rightarrow> number" where
  "Math_pow base NaN = NaN"
| "Math_pow base (Fin e) =
     (if e = 0 then Fin 1
      else case base of
             NaN \<Rightarrow> NaN
           | PInf \<Rightarrow> if 0 < e then PInf else Fin 0
           | NInf \<Rightarrow> if 0 < e then (if e = of_int \<lfloor>e\<rfloor> \<and> odd \<lfloor>e\<rfloor> then NInf else PInf)
                     else Fin 0
           | Fin b \<Rightarrow>
               if 0 < b then to_number (b powr e)
               else if b = 0 then (if 0 < e then Fin 0 else PInf)
               else if e = of_int \<lfloor>e\<rfloor>
               then to_number ((if odd \<lfloor>e\<rfloor> then - 1 else 1) * (\<bar>b\<bar> powr e))
               else NaN)"
| "Math_pow base PInf =
     (case base of
        NaN \<Rightarrow> NaN
      | Fin b \<Rightarrow> if 1 < \<bar>b\<bar> then PInf else if \<bar>b\<bar> = 1 then NaN else Fin 0
      | other \<Rightarrow> PInf)"
| "Math_pow base NInf =
     (case base of
        NaN \<Rightarrow> NaN
      | Fin b \<Rightarrow> if 1 < \<bar>b\<bar> then Fin 0 else if \<bar>b\<bar> = 1 then NaN else PInf
      | other \<Rightarrow> Fin 0)"

text \<open>
  The \<open>waves\<close> object of \<open>getDominantPattern\<close>, in its key order: each band times its
  frequency weight, divided by the weighted total. Every product, sum and quotient is
  rounded; the total is summed from left to right in the order alpha, beta, gamma, delta,
  theta.
\<close>

definition weighted_waves :: "brainwaves \<Rightarrow> (string \<times> number) list" where
  "weighted_waves b =
     (let a = fmul (Fin (alpha b))
                (Math_pow (fdiv (fadd (Fin 8) (Fin 12)) (Fin 2)) weighting_power);
          be = fmul (Fin (beta b))
                (Math_pow (fdiv (fadd (Fin 12) (Fin 30)) (Fin 2)) weighting_power);
          g = fmul (Fin (gamma b)) (Math_pow (Fin 30) weighting_power);
          d = fmul (Fin (delta b)) (Math_pow (Fin 0.5) weighting_power);
          t = fmul (Fin (theta b))
                (Math_pow (fdiv (fadd (Fin 4) (Fin 8)) (Fin 2)) weighting_power);
          total = fadd (fadd (fadd (fadd a be) g) d) t
      in [(''alpha'', fdiv a total), (''beta'', fdiv be total), (''gamma'', fdiv g total),
          (''theta'', fdiv t total), (''delta'', fdiv d total)])"

fun dominant_step :: "string \<times> number \<Rightarrow> string option \<times> number \<Rightarrow> string option \<times> number" where
  "dominant_step (wave, v) (maxWave, maxValue) =
     (if num_gt v maxValue \<and> num_gt v dominant_cutoff then (Some wave, v)
      else (maxWave, maxValue))"

definition getDominantPattern :: "brainwaves \<Rightarrow> mlAnalysis \<Rightarrow> real list option \<Rightarrow> string" where
  "getDominantPattern b ml activenessArray =
     (let activenessState = getActivenessState activenessArray
      in case fst (fold dominant_step (weighted_waves b) (None, Fin 0)) of
           None \<Rightarrow> ''balanced''
         | Some maxWave \<Rightarrow>
             (case activenessState of
                None \<Rightarrow> maxWave @ ''_generic''
              | Some st \<Rightarrow> maxWave @ ''_'' @ st))"

text \<open>
  The notions of the statements about this classifier. \<open>m\<close> is the largest weighted
  proportion when one of the five proportions is \<open>m\<close> and none is greater. The two
  constants are the doubles that the literals \<open>0.225\<close> and \<open>0.2251\<close> denote.
\<close>

definition is_max_weighted :: "brainwaves \<Rightarrow> number \<Rightarrow> bool" where
  "is_max_weighted b m =
     (list_ex (\<lambda>(w, v). v = m) (weighted_waves b)
      \<and> list_all (\<lambda>(w, v). num_ge m v) (weighted_waves b))"

definition double_0225 :: real where
  "double_0225 = 8106479329266893 / 2 ^ 55"

definition double_02251 :: real where
  "double_02251 = 8110082208968789 / 2 ^ 55"

definition activeness_suffixes :: "string list" where
  "activeness_suffixes = [''active'', ''clear'', ''meditation'', ''generic'']"

text \<open>
  Two inputs of doubles: the largest weighted proportion of the first is the double
  \<open>0.225\<close>, held by alpha; that of the second is the double \<open>0.2251\<close>, held by beta.
\<close>

definition bands_at_cutoff :: brainwaves where
  "bands_at_cutoff =
     \<lparr> alpha = 1283306672214721 / 18014398509481984, beta = 49 / 1024, gamma = 19 / 512,
       delta = 2109748366524087 / 9007199254740992, theta = 157 / 2048 \<rparr>"

definition bands_above_cutoff :: brainwaves where
  "bands_above_cutoff =
     \<lparr> alpha = 283 / 4096, beta = 7080404215844671 / 144115188075855872, gamma = 19 / 512,
       delta = 1054237278094791 / 4503599627370496, theta = 157 / 2048 \<rparr>"

section \<open>Notions used in the statements about the classifiers\<close>

text \<open>
  The fraction of the samples that fall into a bucket, as the specification words it.
\<close>

definition bucket_fraction :: "(real \<Rightarrow> bool) \<Rightarrow> real list \<Rightarrow> real" where
  "bucket_fraction P arr = real (length (filter P arr)) / real (length arr)"

text \<open>
  The first ML state, in the order the source tests them, whose score is the largest of
  the four; and the first band, in the loop's order, whose value is the largest of the
  four that the loop compares.
\<close>

definition first_max_state :: "mlAnalysis \<Rightarrow> string" where
  "first_max_state ml =
     (let mlMax = Math_max4 (focus ml) (clear ml) (meditation ml) (dream ml)
      in if meditation ml = mlMax then ''meditation''
         else if focus ml = mlMax then ''focus''
         else if clear ml = mlMax then ''clear''
         else ''dream'')"

definition first_max_band :: "brainwaves \<Rightarrow> string" where
  "first_max_band b =
     (let m = Math_max4 (alpha b) (beta b) (gamma b) (theta b)
      in if alpha b = m then ''alpha''
         else if beta b = m then ''beta''
         else if gamma b = m then ''gamma''
         else ''theta'')"

section \<open>Tail deduplicator\<close>

text \<open>
  \<open>removeRepeatedTail\<close> takes an object whose values should be arrays. The object is an
  association list in key order (\<open>Object.keys\<close>); a value is an array of numbers or
  something that \<open>Array.isArray\<close> rejects. \<open>null\<close> and \<open>undefined\<close> are \<open>None\<close>.
  \<open>minLength\<close> starts at \<open>Infinity\<close>. The scanning loop runs \<open>i\<close> from \<open>minLength - 1\<close>
  down to 1 and stops at the first index where some array does not repeat; every index it
  reads is below \<open>minLength\<close>. \<open>slice(0, -removeCount)\<close> keeps the first
  \<open>length - removeCount\<close> entries.
\<close>

datatype jsval = Arr "real list" | NotArr

fun minLength_loop :: "(string \<times> jsval) list \<Rightarrow> enat \<Rightarrow> enat option" where
  "minLength_loop [] minLength = Some minLength"
| "minLength_loop ((key, NotArr) # rest) minLength = None"
| "minLength_loop ((key, Arr a) # rest) minLength =
     minLength_loop rest (min minLength (enat (length a)))"

definition allRepeated :: "(string \<times> jsval) list \<Rightarrow> nat \<Rightarrow> bool" where
  "allRepeated dataArrays i =
     list_all (\<lambda>(key, v). case v of Arr a \<Rightarrow> a ! i = a ! (i - 1) | NotArr \<Rightarrow> True) dataArrays"

fun tail_loop :: "(string \<times> jsval) list \<Rightarrow> nat \<Rightarrow> nat \<Rightarrow> nat" where
  "tail_loop dataArrays 0 removeCount = removeCount"
| "tail_loop dataArrays (Suc j) removeCount =
     (if allRepeated dataArrays (Suc j) then tail_loop dataArrays j (removeCount + 1)
      else removeCount)"

definition slice_tail :: "nat \<Rightarrow> jsval \<Rightarrow> jsval" where
  "slice_tail removeCount v =
     (case v of Arr a \<Rightarrow> Arr (take (length a - removeCount) a) | NotArr \<Rightarrow> NotArr)"

definition removeRepeatedTail ::
  "(string \<times> jsval) list option \<Rightarrow> (string \<times> jsval) list option" where
  "removeRepeatedTail dataArrays =
     (case dataArrays of
        None \<Rightarrow> None
      | Some d \<Rightarrow>
          if length d = 0 then Some d
          else
            (case minLength_loop d \<infinity> of
               None \<Rightarrow> Some d
             | Some minLength \<Rightarrow>
                 if minLength \<le> 1 then Some d
                 else
                   (let removeCount = tail_loop d (the_enat minLength - 1) 0
                    in if removeCount > 0
                       then Some (map (\<lambda>(key, v). (key, slice_tail removeCount v)) d)
                       else Some d)))"

text \<open>A well-formed input: every value is an array, and all arrays have length \<open>n\<close>.\<close>

definition equal_length_arrays :: "(string \<times> jsval) list \<Rightarrow> nat \<Rightarrow> bool" where
  "equal_length_arrays d n =
     list_all (\<lambda>(key, v). case v of Arr a \<Rightarrow> length a = n | NotArr \<Rightarrow> False) d"

section \<open>Waveform synthesizer\<close>

text \<open>
  \<open>generateFrequencyWeightedWave\<close> of the full page, with the removal of the mean. The
  returned path string \<open>M x0,y0 L x1,y1 ...\<close> is modelled by the list of its points;
  an unknown band gives the two points of the flat line. The band is looked up among
  the five keys that the table declares. The first loop builds one component per
  harmonic, the second sums the sines at each \<open>x\<close>, the third centres, scales and clamps.
\<close>

record brainwaveSpec =
  minHz :: real
  maxHz :: real
  centerHz :: real
  numWaves :: nat

record waveComponent =
  freq :: real
  amplitude :: real
  phase :: real

definition brainwaveSpecs :: "(string \<times> brainwaveSpec) list" where
  "brainwaveSpecs =
     [(''delta'', \<lparr>minHz = 0.5, maxHz = 4, centerHz = 2.25, numWaves = 7\<rparr>),
      (''theta'', \<lparr>minHz = 4, maxHz = 8, centerHz = 6, numWaves = 13\<rparr>),
      (''alpha'', \<lparr>minHz = 8, maxHz = 12, centerHz = 10, numWaves = 8\<rparr>),
      (''beta'', \<lparr>minHz = 12, maxHz = 30, centerHz = 21, numWaves = 10\<rparr>),
      (''gamma'', \<lparr>minHz = 30, maxHz = 100, centerHz = 65, numWaves = 2\<rparr>)]"

definition wave_component :: "brainwaveSpec \<Rightarrow> real \<Rightarrow> nat \<Rightarrow> waveComponent" where
  "wave_component spec amp i =
     (let fr = minHz spec + (maxHz spec - minHz spec) * ((real i + 1) / (real (numWaves spec) + 2));
          distanceFromCenter = \<bar>fr - centerHz spec\<bar>;
          maxDistance = max (centerHz spec - minHz spec) (maxHz spec - centerHz spec);
          weight = 1 - (distanceFromCenter / maxDistance) * 0.3;
          visualFreq = fr / 20;
          positionRatio = (real i + 1) / (real (numWaves spec) + 2);
          phaseOffset = real i + positionRatio * pi * 2
      in \<lparr>freq = visualFreq, amplitude = weight * amp, phase = phaseOffset\<rparr>)"

definition raw_point :: "waveComponent list \<Rightarrow> nat \<Rightarrow> nat \<Rightarrow> real" where
  "raw_point waveComponents width x =
     (let t = (real x / real width) * pi * 8
      in fold (\<lambda>component y. y + sin (t * freq component + phase component) * amplitude component)
           waveComponents 0)"

definition generateFrequencyWeightedWave ::
  "string \<Rightarrow> real \<Rightarrow> nat \<Rightarrow> real \<Rightarrow> (nat \<times> real) list" where
  "generateFrequencyWeightedWave brainwaveType amp width height =
     (let centerY = height / 2;
          maxAmplitude = height / 3
      in case map_of brainwaveSpecs brainwaveType of
           None \<Rightarrow> [(0, centerY), (width, centerY)]
         | Some spec \<Rightarrow>
             let waveComponents = map (wave_component spec amp) [0..<numWaves spec];
                 rawPoints = map (raw_point waveComponents width) [0..<width];
                 mean = fold (\<lambda>val sum. sum + val) rawPoints 0 / real (length rawPoints)
             in map (\<lambda>x. (x, max 1 (min (height - 1)
                               (centerY - ((rawPoints ! x - mean) * maxAmplitude)))))
                  [0..<width])"

section \<open>Fortune selector\<close>

text \<open>
  The message bank of the full page, in the order the source declares it. The em dash of
  the source texts is written as its three UTF-8 bytes.
\<close>

definition emdash :: string where
  "emdash = [CHR 0xE2, CHR 0x80, CHR 0x94]"

definition fortunes :: "(string \<times> string list) list" where
  "fortunes =
     [
      (''alpha_active'',
       [''Your relaxed focus brings sharp clarity to every task. Productive calm is your superpower.'',
        ''Alert yet at peace, you navigate complexity with effortless precision.'',
        ''Calm engagement unlocks creative problem-solving. Trust this balanced energy.'',
        ''Gentle attention achieves what force cannot. Your steady presence opens all doors.'',
        ''The art of relaxed concentration transforms ordinary moments into opportunities.'',
        ''Peaceful awareness meets purposeful action. You master the balance few achieve.'']),
      (''alpha_clear'',
       [''Your relaxed mind opens to creative possibilities. Trust the calm clarity within.'',
        ''In stillness, solutions emerge naturally. Let your awareness guide you.'',
        ''Creative energy flows when the mind is at peace. Embrace this moment.'',
        ''Tranquil waters reflect the sky perfectly. Your calm mind mirrors wisdom.'',
        ''Serenity becomes the canvas upon which inspiration paints its masterpiece.'',
        ''Rest is not idleness'' @ emdash @ ''it is the space where your greatest ideas take form.'']),
      (''alpha_meditation'',
       [''Deep relaxation meets inner knowing. Your peaceful mind touches profound wisdom.'',
        ''In meditative flow, creativity and tranquility become one.'',
        ''Serene awareness opens doorways to your most authentic insights.'',
        ''The silence between thoughts holds secrets the noise never reveals.'',
        ''In profound rest, your soul remembers what your mind forgot.'',
        ''Peace deepens into revelation. You float in the ocean of consciousness itself.'']),
      (''alpha_generic'',
       [''Calm creativity flows through your consciousness.'',
        ''Your relaxed awareness moves with natural grace.'',
        ''Peace and possibility dance together in your mind.'',
        ''Gentle knowing guides you through the day. Trust the quiet voice.'',
        ''Your inner stillness radiates outward, touching all you encounter.'',
        ''Relaxation is not weakness'' @ emdash @ ''it is the power of water that shapes stone.'']),
      (''beta_active'',
       [''Your active mind cuts through complexity with precision and focus.'',
        ''Problem-solving comes naturally when your awareness is sharp and engaged.'',
        ''Mental agility leads to breakthrough moments. Stay alert to opportunities.'',
        ''Lightning-quick perception illuminates what others overlook. Strike while the iron glows.'',
        ''Your razor-sharp attention carves pathways through impossible terrain.'',
        ''Dynamic thinking meets determined action. The world bends to your clarity.'']),
      (''beta_clear'',
       [''Focused clarity brings elegant solutions to complex challenges.'',
        ''Your alert yet calm mind sees patterns others miss.'',
        ''Balanced thinking transforms obstacles into stepping stones.'',
        ''Poised awareness cuts through confusion like a blade through silk.'',
        ''Steady observation reveals the hidden order within apparent chaos.'',
        ''Your composed attention finds the thread that unravels every knot.'']),
      (''beta_meditation'',
       [''Active consciousness meets inner stillness. Rare insight emerges from this union.'',
        ''Your engaged mind discovers peace within motion'' @ emdash @ ''a paradox that reveals truth.'',
        ''Alert meditation unlocks wisdom hidden in the dance of thought and silence.'',
        ''The eye of the hurricane: perfect calm surrounded by dynamic force.'',
        ''Moving meditation reveals truths that sitting never could. Walk the razor's edge.'',
        ''Stillness within action'' @ emdash @ ''the warrior's secret, the sage's paradox, your gift today.'']),
      (''beta_generic'',
       [''Sharp clarity energizes your thinking.'',
        ''Your active awareness navigates the world with purpose.'',
        ''Mental energy flows through channels of focused intention.'',
        ''Quick thinking opens doors before they close. Your timing is impeccable.'',
        ''Engaged perception transforms the mundane into the meaningful.'',
        ''Your wakeful mind dances with reality, leading when it must, following when it should.'']),
      (''gamma_active'',
       [''Your heightened mind makes connections others cannot see.'',
        ''Peak awareness transforms complexity into crystalline understanding.'',
        ''Hyperconnected consciousness breaks through to revolutionary insight.'',
        ''Synapses fire in symphonic unity. You perceive the web that connects all things.'',
        ''Your accelerated awareness collapses time'' @ emdash @ ''past, present, future merge into now.'',
        ''Neural lightning reveals the invisible architecture underlying visible reality.'']),
      (''gamma_clear'',
       [''Expanded awareness meets serene clarity. Profound patterns reveal themselves.'',
        ''Your heightened perception sees truth with calm precision.'',
        ''Peak consciousness flows through open channels of understanding.'',
        ''The universe whispers its secrets to minds like yours'' @ emdash @ ''vast yet focused.'',
        ''Elevated sight meets tranquil heart. You see infinity without losing yourself.'',
        ''Crystalline awareness refracts reality into its component truths.'']),
      (''gamma_meditation'',
       [''Transcendent awareness emerges from the depths. You touch universal knowing.'',
        ''The rarest state opens'' @ emdash @ ''pure consciousness witnessing itself.'',
        ''In heightened stillness, all boundaries dissolve into infinite awareness.'',
        ''You stand at the threshold where self dissolves into everything.'',
        ''Peak experience meets deepest surrender. The cosmos recognizes itself through you.'',
        ''In this moment, you are both the observer and the observed'' @ emdash @ ''unity realized.'']),
      (''gamma_generic'',
       [''Insight emerges from the synthesis of ideas. Trust your expanded awareness.'',
        ''The patterns of understanding reveal themselves to your awakened consciousness.'',
        ''Your heightened mind perceives connections across all dimensions.'',
        ''Quantum leaps of understanding occur when perception reaches critical velocity.'',
        ''Your consciousness operates at frequencies most never access. Use this gift wisely.'',
        ''The veil between seen and unseen grows transparent to your elevated sight.'']),
      (''delta_active'',
       [''Deep processing meets outward engagement. Hidden wisdom emerges into action.'',
        ''Your unconscious mind works while you move'' @ emdash @ ''transformation in motion.'',
        ''Profound change flows beneath active awareness. Trust the deep currents.'',
        ''Primordial power rises through your actions. Ancient knowing guides modern doing.'',
        ''The depths animate your surface. You move with unconscious grace.'',
        ''Root wisdom flows into branch and leaf. Your actions carry primordial truth.'']),
      (''delta_clear'',
       [''Your unconscious mind processes profound transformations with gentle clarity.'',
        ''Deep wisdom surfaces into conscious awareness. Trust what rises from below.'',
        ''The depths speak in whispers that your calm mind can finally hear.'',
        ''What stirs in the abyss seeks the light. Welcome these visitors from below.'',
        ''The slow work of the depths finally reaches the surface. Receive these gifts.'',
        ''Ancient currents become conscious thoughts. The old ways speak in new voices.'']),
      (''delta_meditation'',
       [''In trance-like depths, your deepest wisdom emerges from shadow into light.'',
        ''The gateway to archetypal wisdom and healing opens before you.'',
        ''Your consciousness touches the deepest waters where all things begin.'',
        ''You descend to the source of all streams. Drink deeply from the first spring.'',
        ''The cave at the bottom of your being holds treasures beyond price.'',
        ''In the womb of consciousness, transformation gestates in perfect darkness.'']),
      (''delta_generic'',
       [''Deep currents of change flow beneath conscious awareness. Allow the process.'',
        ''Your unconscious mind weaves transformation in the hidden depths.'',
        ''You journey to places beyond ordinary knowing.'',
        ''The roots grow strong in darkness. Trust what you cannot yet see.'',
        ''Invisible work proceeds in the depths. The harvest comes in its season.'',
        ''What sleeps beneath will wake in time. The depths are never truly still.'']),
      (''theta_active'',
       [''Subconscious creativity meets focused action. Innovation flows freely.'',
        ''Your intuitive mind engages with the world'' @ emdash @ ''dreams become reality.'',
        ''Active imagination transforms vision into tangible form.'',
        ''The dreaming mind sculpts waking reality. Your visions take physical form.'',
        ''Inspiration drives your hands today. The muse and the maker are one.'',
        ''Creative fire burns bright in the forge of action. You birth the impossible.'']),
      (''theta_clear'',
       [''Your subconscious mind weaves creativity and intuition into new forms.'',
        ''Meditative clarity reveals the hidden connections between all things.'',
        ''Insight flows from deep waters into the light of understanding.'',
        ''The twilight mind sees what daylight obscures. Trust your sideways knowing.'',
        ''Half-dreaming wisdom clarifies what sharp thinking missed. Let soft focus reveal.'',
        ''The boundary between imagination and perception blurs'' @ emdash @ ''here truth emerges.'']),
      (''theta_meditation'',
       [''The realm of visions and symbolic truth opens before you.'',
        ''Your subconscious unfolds like a lotus, revealing layer upon layer of meaning.'',
        ''In this liminal space, your mind creates bridges between worlds.'',
        ''You walk between waking and sleeping, knowing and unknowing, form and void.'',
        ''The dream world and waking world recognize no border today. You are the bridge.'',
        ''Symbolic language speaks louder than words. Your soul reads the signs.'']),
      (''theta_generic'',
       [''Subconscious wisdom flows through your awareness.'',
        ''Your intuitive mind perceives truths beyond logic.'',
        ''Messages arrive from the realm of dreams.'',
        ''The twilight realm whispers insights the daylight mind cannot grasp.'',
        ''Your inner vision sees further than your outer eyes. Trust the images.'',
        ''Creativity stirs in the half-light of consciousness. Feed it and watch it grow.'']),
      (''balanced'',
       [''All levels of consciousness work in harmony to create perfect understanding.'',
        ''Your integrated awareness brings balanced perspective to every situation.'',
        ''Mind, body, and spirit align to manifest your highest potential.'',
        ''The symphony of your being plays in perfect harmony. Each instrument serves the whole.'',
        ''Like a master conductor, you orchestrate all aspects of awareness into sublime unity.'',
        ''In this moment of equilibrium, you access the wisdom of all states at once.''])
     ]"

text \<open>
  Reading \<open>fortunes[category]\<close>: an own key gives its list; a name that every object
  inherits from \<open>Object.prototype\<close> gives a function or object, which is truthy and is
  not a list of fortunes; any other name gives \<open>undefined\<close>.
\<close>

definition Object_prototype_keys :: "string list" where
  "Object_prototype_keys =
     [''constructor'', ''hasOwnProperty'', ''isPrototypeOf'', ''propertyIsEnumerable'',
      ''toLocaleString'', ''toString'', ''valueOf'', ''__proto__'',
      ''__defineGetter__'', ''__defineSetter__'', ''__lookupGetter__'', ''__lookupSetter__'']"

datatype jsprop = OwnList "string list" | Inherited | Undefined

definition fortunes_get :: "string \<Rightarrow> jsprop" where
  "fortunes_get category =
     (case map_of fortunes category of
        Some l \<Rightarrow> OwnList l
      | None \<Rightarrow> if category \<in> set Object_prototype_keys then Inherited else Undefined)"

text \<open>
  \<open>Math.round\<close> rounds a finite Number to the nearest integer, halves upwards, and leaves
  an infinity or \<open>NaN\<close> as it is. The operator \<open>%\<close> is the exact remainder of the
  truncating division; it is \<open>NaN\<close> for a zero divisor and for an infinite or \<open>NaN\<close>
  dividend. Reading an array at a Number that is not an integer index below its length
  gives \<open>undefined\<close> (\<open>None\<close>).
\<close>

definition Math_round :: "number \<Rightarrow> number" where
  "Math_round x = (case x of Fin r \<Rightarrow> Fin (of_int \<lfloor>r + 1 / 2\<rfloor>) | other \<Rightarrow> other)"

definition truncate_real :: "real \<Rightarrow> int" where
  "truncate_real x = (if 0 \<le> x then \<lfloor>x\<rfloor> else \<lceil>x\<rceil>)"

definition js_remainder :: "number \<Rightarrow> nat \<Rightarrow> number" where
  "js_remainder a n =
     (case a of
        Fin r \<Rightarrow> if n = 0 then NaN
                 else Fin (r - real n * of_int (truncate_real (r / real n)))
      | other \<Rightarrow> NaN)"

definition array_get :: "'a list \<Rightarrow> number \<Rightarrow> 'a option" where
  "array_get xs idx =
     (case idx of
        Fin i \<Rightarrow> if i = of_int \<lfloor>i\<rfloor> \<and> 0 \<le> i \<and> i < real (length xs)
                 then Some (xs ! nat \<lfloor>i\<rfloor>) else None
      | other \<Rightarrow> None)"

text \<open>
  The seed: the products and the sum are rounded to doubles one operation at a time, from
  left to right, and may overflow. The band values and the meditation score are finite
  Numbers.
\<close>

definition seed_sum :: "brainwaves \<Rightarrow> mlAnalysis \<Rightarrow> number" where
  "seed_sum b ml =
     fadd (fadd (fadd (fadd (fadd (fmul (Fin (alpha b)) (Fin 1000))
                                  (fmul (Fin (beta b)) (Fin 2000)))
                            (fmul (Fin (gamma b)) (Fin 3000)))
                      (fmul (Fin (delta b)) (Fin 4000)))
                (fmul (Fin (theta b)) (Fin 5000)))
          (fmul (Fin (meditation ml)) (Fin 8000))"

definition fortune_seed :: "brainwaves \<Rightarrow> mlAnalysis \<Rightarrow> number" where
  "fortune_seed b ml = Math_round (seed_sum b ml)"

text \<open>
  \<open>getRandomFortune\<close>. A value inherited from \<open>Object.prototype\<close> has no fortune at any
  index, so the result is \<open>undefined\<close>; the table has the key \<open>balanced\<close>, so the
  fallback is never \<open>undefined\<close>.
\<close>

definition getRandomFortune :: "string \<Rightarrow> brainwaves \<Rightarrow> mlAnalysis \<Rightarrow> string option" where
  "getRandomFortune category b ml =
     (let seed = fortune_seed b ml
      in case (case fortunes_get category of
                 Undefined \<Rightarrow> fortunes_get ''balanced''
               | v \<Rightarrow> v) of
           OwnList categoryFortunes \<Rightarrow>
             array_get categoryFortunes (js_remainder seed (length categoryFortunes))
         | Inherited \<Rightarrow> None
         | Undefined \<Rightarrow> None)"

text \<open>The list the specification selects from: the label's own list, else that of \<open>balanced\<close>.\<close>

definition balanced_fortunes :: "string list" where
  "balanced_fortunes =
     [''All levels of consciousness work in harmony to create perfect understanding.'',
      ''Your integrated awareness brings balanced perspective to every situation.'',
      ''Mind, body, and spirit align to manifest your highest potential.'',
      ''The symphony of your being plays in perfect harmony. Each instrument serves the whole.'',
      ''Like a master conductor, you orchestrate all aspects of awareness into sublime unity.'',
      ''In this moment of equilibrium, you access the wisdom of all states at once.'']"

definition label_fortunes :: "string \<Rightarrow> string list" where
  "label_fortunes category =
     (case map_of fortunes category of Some l \<Rightarrow> l | None \<Rightarrow> balanced_fortunes)"

text \<open>A Number that is finite and not negative, or plus infinity.\<close>

definition nonneg_number :: "number \<Rightarrow> bool" where
  "nonneg_number x = (case x of Fin r \<Rightarrow> 0 \<le> r | PInf \<Rightarrow> True | other \<Rightarrow> False)"

section \<open>Identifier codec\<close>

text \<open>
  \<open>encodeId\<close>, \<open>encodeRandomFortuneTimestamp\<close> and \<open>decodeId\<close> are the same in both
  page scripts. A token and a decoded string are strings of \<^typ>\<open>char\<close>, the code units
  below 256; a code unit above 255 in a token makes \<open>atob\<close> throw exactly as any other
  character outside the base64 alphabet does. \<open>btoa\<close> and \<open>atob\<close> are the browser's
  functions, modelled after the HTML standard: \<open>btoa\<close> is base64 with padding, \<open>atob\<close>
  is the forgiving base64 decoder, which throws on a malformed input. \<open>parseInt\<close> and
  the arithmetic on its result are exact, as they are in the source for values below
  \<open>2^53\<close>.
\<close>

datatype js_error = InvalidCharacterError | RangeError

definition b64_alphabet :: string where
  "b64_alphabet = ''ABCDEFGHIJKLMNOPQRSTUVWXYZabcdefghijklmnopqrstuvwxyz0123456789+/''"

definition b64_char :: "nat \<Rightarrow> char" where
  "b64_char i = b64_alphabet ! i"

fun index_of :: "'a \<Rightarrow> 'a list \<Rightarrow> nat option" where
  "index_of x [] = None"
| "index_of x (y # ys) =
     (if x = y then Some 0 else (case index_of x ys of None \<Rightarrow> None | Some i \<Rightarrow> Some (Suc i)))"

definition b64_value :: "char \<Rightarrow> nat option" where
  "b64_value c = index_of c b64_alphabet"

text \<open>Bytes to 6-bit groups, three bytes at a time; the last group is filled with zero bits.\<close>

fun b64_sextets :: "nat list \<Rightarrow> nat list" where
  "b64_sextets (a # b # c # rest) =
     [a div 4, (a mod 4) * 16 + b div 16, (b mod 16) * 4 + c div 64, c mod 64] @ b64_sextets rest"
| "b64_sextets [a, b] = [a div 4, (a mod 4) * 16 + b div 16, (b mod 16) * 4]"
| "b64_sextets [a] = [a div 4, (a mod 4) * 16]"
| "b64_sextets [] = []"

definition btoa :: "string \<Rightarrow> string" where
  "btoa s =
     map b64_char (b64_sextets (map of_char s))
     @ replicate ((3 - length s mod 3) mod 3) (CHR ''='')"

text \<open>6-bit groups to bytes; two or three trailing groups give one or two bytes.\<close>

fun b64_bytes :: "nat list \<Rightarrow> nat list" where
  "b64_bytes (a # b # c # d # rest) =
     [a * 4 + b div 16, (b mod 16) * 16 + c div 4, (c mod 4) * 64 + d] @ b64_bytes rest"
| "b64_bytes [a, b, c] = [a * 4 + b div 16, (b mod 16) * 16 + c div 4]"
| "b64_bytes [a, b] = [a * 4 + b div 16]"
| "b64_bytes [a] = []"
| "b64_bytes [] = []"

definition is_ascii_whitespace :: "char \<Rightarrow> bool" where
  "is_ascii_whitespace c = (of_char c \<in> {9, 10, 12, 13, 32 :: nat})"

definition strip_two_equals :: "string \<Rightarrow> string" where
  "strip_two_equals d =
     (case rev d of
        [] \<Rightarrow> d
      | c1 # r1 \<Rightarrow>
          if c1 = CHR ''=''
          then (case r1 of
                  [] \<Rightarrow> rev r1
                | c2 # r2 \<Rightarrow> if c2 = CHR ''='' then rev r2 else rev r1)
          else d)"

definition atob :: "string \<Rightarrow> js_error + string" where
  "atob data =
     (let d1 = filter (\<lambda>c. \<not> is_ascii_whitespace c) data;
          d2 = (if length d1 mod 4 = 0 then strip_two_equals d1 else d1)
      in if length d2 mod 4 = 1 then Inl InvalidCharacterError
         else if \<not> list_all (\<lambda>c. b64_value c \<noteq> None) d2 then Inl InvalidCharacterError
         else Inr (map char_of (b64_bytes (map (\<lambda>c. the (b64_value c)) d2))))"

text \<open>\<open>String.prototype.repeat\<close> throws a \<open>RangeError\<close> for a negative count.\<close>

definition String_repeat :: "string \<Rightarrow> int \<Rightarrow> js_error + string" where
  "String_repeat s n = (if n < 0 then Inl RangeError else Inr (concat (replicate (nat n) s)))"

text \<open>\<open>replace(/=+$/, '')\<close> removes the run of \<open>=\<close> at the end of the string.\<close>

definition strip_padding :: "string \<Rightarrow> string" where
  "strip_padding s = rev (dropWhile (\<lambda>c. c = CHR ''='') (rev s))"

text \<open>
  An integer in a template string is printed in decimal, with a minus sign when negative.
  \<open>parseInt\<close> is only applied to what \<open>\d+\<close> or \<open>-?\d+\<close> matched, and reads it in
  base 10.
\<close>

definition digit_char :: "nat \<Rightarrow> char" where
  "digit_char d = char_of (48 + d)"

definition is_digit :: "char \<Rightarrow> bool" where
  "is_digit c = (48 \<le> (of_char c :: nat) \<and> (of_char c :: nat) \<le> 57)"

definition digit_value :: "char \<Rightarrow> nat" where
  "digit_value c = of_char c - 48"

function digits_of :: "nat \<Rightarrow> string" where
  "digits_of n = (if n < 10 then [digit_char n] else digits_of (n div 10) @ [digit_char (n mod 10)])"
  by pat_completeness auto
termination
  by (relation "measure id") auto

declare digits_of.simps [simp del]

definition Number_toString :: "int \<Rightarrow> string" where
  "Number_toString n = (if n < 0 then CHR ''-'' # digits_of (nat (- n)) else digits_of (nat n))"

definition parse_digits :: "string \<Rightarrow> nat" where
  "parse_digits ds = foldl (\<lambda>acc c. 10 * acc + digit_value c) 0 ds"

definition parseInt :: "string \<Rightarrow> int" where
  "parseInt s =
     (case s of
        [] \<Rightarrow> 0
      | c # ds \<Rightarrow> if c = CHR ''-'' then - int (parse_digits ds) else int (parse_digits s))"

text \<open>
  The two regular expressions of \<open>decodeId\<close>, each returning its groups.
  \<open>/^f(\d+)$/\<close>: an \<open>f\<close>, then one or more digits up to the end.
  \<open>/^(\d+)x(-?\d+)$/\<close>: the digits before the \<open>x\<close> are the longest run of digits at the
  start, since the next character has to be \<open>x\<close>.
\<close>

definition match_fortune :: "string \<Rightarrow> string option" where
  "match_fortune s =
     (case s of
        [] \<Rightarrow> None
      | c # ds \<Rightarrow> if c = CHR ''f'' \<and> ds \<noteq> [] \<and> list_all is_digit ds then Some ds else None)"

definition match_data :: "string \<Rightarrow> (string \<times> string) option" where
  "match_data s =
     (let g1 = takeWhile is_digit s;
          rest = dropWhile is_digit s
      in if g1 = [] then None
         else (case rest of
                 [] \<Rightarrow> None
               | c # g2 \<Rightarrow>
                   if c \<noteq> CHR ''x'' then None
                   else (let ds = (case g2 of
                                     [] \<Rightarrow> []
                                   | m # u \<Rightarrow> if m = CHR ''-'' then u else g2)
                         in if ds \<noteq> [] \<and> list_all is_digit ds then Some (g1, g2) else None)))"

text \<open>
  The operator \<open>^\<close> converts both operands with \<open>ToInt32\<close> (truncate, then wrap to 32
  bits) and gives a signed 32-bit result.
\<close>

definition ToInt32 :: "real \<Rightarrow> 32 word" where
  "ToInt32 x = word_of_int (if 0 \<le> x then \<lfloor>x\<rfloor> else \<lceil>x\<rceil>)"

definition js_xor :: "real \<Rightarrow> real \<Rightarrow> int" where
  "js_xor x y = sint (ToInt32 x XOR ToInt32 y)"

datatype decoded_id = Fortune int | Data int int

definition encodeId :: "int \<Rightarrow> int \<Rightarrow> string" where
  "encodeId headband run =
     (let obfuscatedHeadband = js_xor (of_int headband) 0xB + 37;
          obfuscatedRun = js_xor (of_int run) 0x2A * 17 + 531;
          idString = Number_toString obfuscatedHeadband @ ''x'' @ Number_toString obfuscatedRun
      in strip_padding (btoa idString))"

definition encodeRandomFortuneTimestamp :: "int \<Rightarrow> string" where
  "encodeRandomFortuneTimestamp timestamp =
     strip_padding (btoa (''f'' @ Number_toString timestamp))"

text \<open>
  The body of the \<open>try\<close> block: an exception is \<open>Inl\<close>, a returned value is \<open>Inr\<close>, and
  falling out of the block without a match is \<open>Inr None\<close>. \<open>decodeId\<close> catches every
  exception and returns \<open>null\<close>.
\<close>

definition token_padding :: "string \<Rightarrow> int" where
  "token_padding encodedId = (4 - int (length encodedId) mod 4) mod 4"

definition decodeId_try :: "string \<Rightarrow> js_error + decoded_id option" where
  "decodeId_try encodedId =
     (case String_repeat ''='' (token_padding encodedId) of
        Inl e \<Rightarrow> Inl e
      | Inr padding \<Rightarrow>
          (case atob (encodedId @ padding) of
             Inl e \<Rightarrow> Inl e
           | Inr decoded \<Rightarrow>
               (case match_fortune decoded of
                  Some g \<Rightarrow> Inr (Some (Fortune (parseInt g)))
                | None \<Rightarrow>
                    (case match_data decoded of
                       Some (g1, g2) \<Rightarrow>
                         let obfuscatedHeadband = parseInt g1;
                             obfuscatedRun = parseInt g2;
                             headband = js_xor (of_int (obfuscatedHeadband - 37)) 0xB;
                             run = js_xor (of_int (obfuscatedRun - 531) / 17) 0x2A
                         in Inr (Some (Data headband run))
                     | None \<Rightarrow> Inr None))))"

definition decodeId :: "string \<Rightarrow> decoded_id option" where
  "decodeId encodedId = (case decodeId_try encodedId of Inl e \<Rightarrow> None | Inr r \<Rightarrow> r)"

section \<open>Properties\<close>

subsection \<open>Rounding to doubles\<close>

lemma rhe_bounds: "\<lfloor>y\<rfloor> \<le> round_half_even y \<and> round_half_even y \<le> \<lceil>y\<rceil>"
proof -
  have "y - of_int \<lfloor>y\<rfloor> \<ge> 1 / 2 \<Longrightarrow> \<lfloor>y\<rfloor> + 1 \<le> \<lceil>y\<rceil>"
    by linarith
  then show ?thesis by (auto simp: round_half_even_def Let_def)
qed

lemma rhe_error: "\<bar>of_int (round_half_even y) - y\<bar> \<le> 1 / 2"
proof -
  have "of_int \<lfloor>y\<rfloor> \<le> y" "y < of_int \<lfloor>y\<rfloor> + 1" by linarith+
  then show ?thesis by (auto simp: round_half_even_def Let_def)
qed

lemma rhe_of_int [simp]: "round_half_even (of_int k) = k"
  by (simp add: round_half_even_def)

lemma rhe_nonneg: "0 \<le> y \<Longrightarrow> 0 \<le> round_half_even y"
  using rhe_bounds [of y] by (smt (verit) zero_le_floor)

lemma rhe_near: "\<bar>y - of_int k\<bar> < 1 / 2 \<Longrightarrow> round_half_even y = k"
proof -
  assume a: "\<bar>y - of_int k\<bar> < 1 / 2"
  have "\<bar>of_int (round_half_even y) - of_int k\<bar> < (1::real)"
    using rhe_error [of y] a by linarith
  then have "\<bar>round_half_even y - k\<bar> < 1" by linarith
  then show ?thesis by linarith
qed

lemma binade_unique:
  assumes "2 powr of_int e \<le> \<bar>x\<bar>" and "\<bar>x\<bar> < 2 powr of_int (e + 1)"
  shows "binade x = e"
proof -
  have pos: "0 < \<bar>x\<bar>" using assms(1) by (smt (verit) powr_gt_zero)
  have "of_int e \<le> log 2 \<bar>x\<bar>" using assms(1) pos by (simp add: le_log_iff)
  moreover have "log 2 \<bar>x\<bar> < of_int (e + 1)" using assms(2) pos by (simp add: log_less_iff)
  ultimately show ?thesis unfolding binade_def by linarith
qed

lemma binade_bounds:
  assumes "x \<noteq> 0"
  shows "2 powr of_int (binade x) \<le> \<bar>x\<bar>" and "\<bar>x\<bar> < 2 powr of_int (binade x + 1)"
proof -
  have pos: "0 < \<bar>x\<bar>" using assms by simp
  have "of_int (binade x) \<le> log 2 \<bar>x\<bar>" unfolding binade_def by linarith
  then show "2 powr of_int (binade x) \<le> \<bar>x\<bar>" using pos by (simp add: le_log_iff)
  have "log 2 \<bar>x\<bar> < of_int (binade x + 1)" unfolding binade_def by linarith
  then show "\<bar>x\<bar> < 2 powr of_int (binade x + 1)" using pos by (simp add: log_less_iff)
qed

lemma ulp_pos: "0 < ulp x"
  by (simp add: ulp_def)

lemma fl_binade:
  assumes "2 powr of_int e \<le> \<bar>x\<bar>" and "\<bar>x\<bar> < 2 powr of_int (e + 1)" and "- 1022 \<le> e"
  shows "fl x = of_int (round_half_even (x / 2 powr of_int (e - 52))) * 2 powr of_int (e - 52)"
proof -
  have b: "binade x = e" using assms(1,2) by (rule binade_unique)
  have nz: "x \<noteq> 0" using assms(1) by (smt (verit) powr_gt_zero)
  have "ulp x = 2 powr of_int (e - 52)" using assms(3) by (simp add: ulp_def b max_def)
  then show ?thesis using nz by (simp add: fl_def)
qed

lemma fl_nonneg: "0 \<le> x \<Longrightarrow> 0 \<le> fl x"
proof -
  assume a: "0 \<le> x"
  have "0 \<le> x / ulp x" using a ulp_pos [of x] by simp
  then have "0 \<le> round_half_even (x / ulp x)" by (rule rhe_nonneg)
  then show ?thesis using ulp_pos [of x] by (simp add: fl_def)
qed

lemma fl_error_ulp: "\<bar>fl x - x\<bar> \<le> ulp x / 2"
proof (cases "x = 0")
  case True
  then show ?thesis using ulp_pos [of x] by (simp add: fl_def)
next
  case False
  have u: "0 < ulp x" by (rule ulp_pos)
  have "\<bar>fl x - x\<bar> = \<bar>of_int (round_half_even (x / ulp x)) - x / ulp x\<bar> * ulp x"
  proof -
    have "fl x - x = (of_int (round_half_even (x / ulp x)) - x / ulp x) * ulp x"
      using u False by (simp add: fl_def field_simps)
    then show ?thesis using u by (simp add: abs_mult)
  qed
  also have "\<dots> \<le> (1 / 2) * ulp x"
    using rhe_error [of "x / ulp x"] u by (intro mult_right_mono) simp_all
  finally show ?thesis by simp
qed

lemma ulp_normal:
  assumes "2 powr (- 1022) \<le> \<bar>x\<bar>"
  shows "ulp x \<le> 2 powr (- 52) * \<bar>x\<bar>"
proof -
  have nz: "x \<noteq> 0" using assms by (smt (verit) powr_gt_zero)
  have "of_int (- 1022) \<le> log 2 \<bar>x\<bar>" using assms nz by (simp add: le_log_iff)
  then have e: "- 1022 \<le> binade x" unfolding binade_def by linarith
  then have "ulp x = 2 powr (of_int (binade x) - 52)" by (simp add: ulp_def max_def)
  also have "\<dots> = 2 powr (- 52) * 2 powr of_int (binade x)"
    by (simp add: powr_diff powr_minus field_simps)
  also have "\<dots> \<le> 2 powr (- 52) * \<bar>x\<bar>"
    using binade_bounds(1) [OF nz] by (intro mult_left_mono) simp_all
  finally show ?thesis .
qed

lemma ulp_subnormal:
  assumes "x \<noteq> 0" and "\<bar>x\<bar> < 2 powr (- 1022)"
  shows "ulp x = 2 powr (- 1074)"
proof -
  have "log 2 \<bar>x\<bar> < of_int (- 1022)" using assms by (simp add: log_less_iff)
  then have "binade x < - 1022" unfolding binade_def by linarith
  then show ?thesis by (simp add: ulp_def max_def)
qed

lemma fl_error_normal:
  assumes "2 powr (- 1022) \<le> \<bar>x\<bar>"
  shows "\<bar>fl x - x\<bar> \<le> 2 powr (- 53) * \<bar>x\<bar>"
proof -
  have "\<bar>fl x - x\<bar> \<le> ulp x / 2" by (rule fl_error_ulp)
  also have "\<dots> \<le> (2 powr (- 52) * \<bar>x\<bar>) / 2"
    using ulp_normal [OF assms] by simp
  also have "\<dots> = 2 powr (- 53) * \<bar>x\<bar>" by (simp add: powr_minus)
  finally show ?thesis .
qed

lemma fl_error:
  "\<bar>fl x - x\<bar> \<le> 2 powr (- 53) * \<bar>x\<bar> + 2 powr (- 1075)"
proof (cases "2 powr (- 1022) \<le> \<bar>x\<bar>")
  case True
  from fl_error_normal [OF this] show ?thesis by (smt (verit) powr_gt_zero)
next
  case False
  show ?thesis
  proof (cases "x = 0")
    case True
    then show ?thesis by (simp add: fl_def)
  next
    case nz: False
    from False have "\<bar>x\<bar> < 2 powr (- 1022)" by simp
    from ulp_subnormal [OF nz this] fl_error_ulp [of x]
    have "\<bar>fl x - x\<bar> \<le> 2 powr (- 1074) / 2" by simp
    also have "\<dots> = 2 powr (- 1075)" by (simp add: powr_minus)
    finally show ?thesis by (smt (verit) mult_nonneg_nonneg powr_ge_zero abs_ge_zero)
  qed
qed

lemma fl_exact: "x / ulp x = of_int k \<Longrightarrow> fl x = x"
proof -
  assume a: "x / ulp x = of_int k"
  have u: "ulp x \<noteq> 0" using ulp_pos [of x] by simp
  from a u have "x = of_int k * ulp x" by (simp add: field_simps)
  then show ?thesis using a by (simp add: fl_def)
qed

lemma fl_representable:
  assumes k: "\<bar>k\<bar> < 2 ^ 53" and j: "- 1074 \<le> j"
  shows "fl (of_int k * 2 powr of_int j) = of_int k * 2 powr of_int j"
proof (cases "k = 0")
  case True
  then show ?thesis by (simp add: fl_def)
next
  case False
  define x :: real where "x = of_int k * 2 powr of_int j"
  have nz: "x \<noteq> 0" using False by (simp add: x_def)
  have ax: "\<bar>x\<bar> = of_int \<bar>k\<bar> * 2 powr of_int j" by (simp add: x_def abs_mult)
  have "of_int \<bar>k\<bar> < (2::real) ^ 53" using k by (metis of_int_less_numeral_power_cancel_iff)
  then have "\<bar>x\<bar> < 2 ^ 53 * 2 powr of_int j"
    unfolding ax by (intro mult_strict_right_mono) simp_all
  also have "\<dots> = 2 powr of_int (53 + j)"
    by (simp add: powr_add powr_realpow [symmetric])
  finally have "(2::real) powr of_int (binade x) < 2 powr of_int (53 + j)"
    using binade_bounds(1) [OF nz] by linarith
  then have "binade x < 53 + j" by (simp del: of_int_add)
  then have le: "max (binade x) (- 1022) - 52 \<le> j" using j by simp
  define d where "d = nat (j - (max (binade x) (- 1022) - 52))"
  have jd: "of_int j = of_int (max (binade x) (- 1022) - 52) + real d"
    using le by (simp add: d_def)
  have e: "2 powr of_int j = ulp x * 2 ^ d"
    unfolding ulp_def jd by (simp add: powr_add powr_realpow)
  have u: "ulp x \<noteq> 0" using ulp_pos [of x] by simp
  have "x = of_int k * 2 powr of_int j" by (simp add: x_def)
  then have "x = (of_int k * 2 ^ d) * ulp x" unfolding e by (simp only: mult_ac)
  then have "x / ulp x = of_int k * 2 ^ d" using u by (metis nonzero_mult_div_cancel_right)
  then have "x / ulp x = of_int (k * 2 ^ d)" by simp
  then have "fl x = x" by (rule fl_exact)
  then show ?thesis by (simp add: x_def)
qed

lemma fl_of_int: "\<bar>k\<bar> < 2 ^ 53 \<Longrightarrow> fl (of_int k) = of_int k"
  using fl_representable [of k 0] by simp

lemma overflow_threshold_gt: "2 ^ 53 < overflow_threshold"
  unfolding overflow_threshold_def by (rule power_strict_increasing) simp_all

lemma to_number_Fin: "\<bar>fl x\<bar> < overflow_threshold \<Longrightarrow> to_number x = Fin (fl x)"
  unfolding to_number_def Let_def by (simp add: abs_less_iff not_le)

lemma to_number_of_int: "\<bar>k\<bar> < 2 ^ 53 \<Longrightarrow> to_number (of_int k) = Fin (of_int k)"
proof -
  assume k: "\<bar>k\<bar> < 2 ^ 53"
  then have "\<bar>of_int k :: real\<bar> < 2 ^ 53"
    by (metis of_int_abs of_int_less_numeral_power_cancel_iff)
  then have "\<bar>of_int k :: real\<bar> < overflow_threshold"
    using overflow_threshold_gt by linarith
  then show ?thesis using fl_of_int [OF k] to_number_Fin [of "of_int k"] by simp
qed

lemma fl_eval:
  assumes "2 powr of_int e \<le> \<bar>x\<bar>" and "\<bar>x\<bar> < 2 powr of_int (e + 1)" and "- 1022 \<le> e"
    and "\<bar>x / 2 powr of_int (e - 52) - of_int k\<bar> < 1 / 2"
  shows "fl x = of_int k * 2 powr of_int (e - 52)"
  unfolding fl_binade [OF assms(1-3)] rhe_near [OF assms(4)] ..

lemma small_Fin:
  assumes "\<bar>x\<bar> \<le> 2"
  shows "to_number x = Fin (fl x)"
proof -
  have p: "(2::real) powr (- 53) \<le> 1" "(2::real) powr (- 1075) \<le> 1"
    by (simp_all add: powr_minus divide_le_eq_1)
  have "\<bar>fl x\<bar> \<le> \<bar>x\<bar> + \<bar>fl x - x\<bar>" by linarith
  also have "\<dots> \<le> \<bar>x\<bar> + (2 powr (- 53) * \<bar>x\<bar> + 2 powr (- 1075))"
    using fl_error [of x] by linarith
  also have "\<dots> \<le> 2 + (1 * 2 + 1)"
    using assms p by (intro add_mono mult_mono) simp_all
  finally have "\<bar>fl x\<bar> < 2 ^ 53" by simp
  then have "\<bar>fl x\<bar> < overflow_threshold" using overflow_threshold_gt by linarith
  then show ?thesis by (rule to_number_Fin)
qed

lemma to_number_numeral:
  "(numeral n :: int) < 2 ^ 53 \<Longrightarrow> to_number (numeral n) = Fin (numeral n)"
  using to_number_of_int [of "numeral n"] by simp

lemma to_number_zero: "to_number 0 = Fin 0"
  using to_number_of_int [of 0] by simp

lemma fl_scale:
  assumes "\<bar>k\<bar> < 2 ^ 53"
  shows "fl (of_int k * 2 ^ n) = of_int k * 2 ^ n"
proof -
  have "(2::real) powr of_int (int n) = 2 ^ n" by (simp add: powr_realpow)
  then show ?thesis using fl_representable [OF assms, of "int n"] by simp
qed

lemma to_number_overflow: "overflow_threshold \<le> fl x \<Longrightarrow> to_number x = PInf"
  by (simp add: to_number_def)

lemma fl_grid: "\<exists>k::int. fl x = of_int k * 2 powr (- 1074)"
proof (cases "x = 0")
  case True
  then have "fl x = of_int 0 * 2 powr (- 1074)" by (simp add: fl_def)
  then show ?thesis by blast
next
  case False
  define m where "m = max (binade x) (- 1022)"
  define n where "n = nat (m + 1022)"
  have "of_int (m - 52) = (- 1074 :: real) + real n" by (simp add: n_def m_def)
  then have "ulp x = 2 powr (- 1074) * 2 ^ n"
    unfolding ulp_def m_def [symmetric] by (simp only: powr_add powr_realpow)
  then have "fl x = of_int (round_half_even (x / ulp x) * 2 ^ n) * 2 powr (- 1074)"
    using False by (simp add: fl_def)
  then show ?thesis by blast
qed

lemma is_double_grid: "is_double x \<Longrightarrow> \<exists>k::int. x = of_int k * 2 powr (- 1074)"
  using fl_grid [of x] by (simp add: is_double_def)

lemma fl_add_error:
  assumes "\<exists>k::int. x = of_int k * 2 powr (- 1074)"
    and "\<exists>k::int. y = of_int k * 2 powr (- 1074)"
  shows "\<bar>fl (x + y) - (x + y)\<bar> \<le> 2 powr (- 53) * \<bar>x + y\<bar>"
proof (cases "2 powr (- 1022) \<le> \<bar>x + y\<bar>")
  case True
  then show ?thesis by (rule fl_error_normal)
next
  case False
  obtain i j :: int where x: "x = of_int i * 2 powr (- 1074)"
    and y: "y = of_int j * 2 powr (- 1074)" using assms by blast
  have s: "x + y = of_int (i + j) * 2 powr of_int (- 1074)"
    by (simp add: x y algebra_simps)
  have e: "(2::real) powr (- 1022) = 2 powr 52 * 2 powr (- 1074)"
    using powr_add [of "2::real" 52 "- 1074"] by simp
  have a: "\<bar>x + y\<bar> = \<bar>of_int (i + j) :: real\<bar> * 2 powr (- 1074)"
    unfolding s by (simp add: abs_mult)
  have "\<bar>x + y\<bar> < 2 powr (- 1022)" using False by simp
  then have "\<bar>of_int (i + j) :: real\<bar> * 2 powr (- 1074) < 2 powr 52 * 2 powr (- 1074)"
    unfolding a e .
  then have "\<bar>of_int (i + j) :: real\<bar> < 2 powr 52"
    by (simp only: mult_less_cancel_right_pos powr_gt_zero)
  then have "\<bar>of_int (i + j) :: real\<bar> < 2 ^ 53" by simp
  then have "\<bar>i + j\<bar> < 2 ^ 53"
    by (metis of_int_abs of_int_less_numeral_power_cancel_iff)
  then have "fl (x + y) = x + y"
    unfolding s by (intro fl_representable) simp_all
  then show ?thesis by simp
qed

lemma is_double_of_int: "\<bar>k\<bar> < 2 ^ 53 \<Longrightarrow> is_double (of_int k)"
proof -
  assume k: "\<bar>k\<bar> < 2 ^ 53"
  then have "\<bar>of_int k :: real\<bar> < 2 ^ 53"
    by (metis of_int_abs of_int_less_numeral_power_cancel_iff)
  then have "\<bar>of_int k :: real\<bar> < overflow_threshold"
    using overflow_threshold_gt by linarith
  then show ?thesis using fl_of_int [OF k] by (simp add: is_double_def)
qed

lemma is_double_numeral: "(numeral n :: int) < 2 ^ 53 \<Longrightarrow> is_double (numeral n)"
  using is_double_of_int [of "numeral n"] by simp

lemma is_double_zero: "is_double 0"
  using is_double_of_int [of 0] by simp

lemma overflow_threshold_pos: "0 < overflow_threshold"
  by (simp add: overflow_threshold_def)

lemma half_threshold: "overflow_threshold / 2 = of_int 1 * 2 ^ 1023"
  by (simp add: overflow_threshold_def)

lemma is_double_half_threshold: "is_double (overflow_threshold / 2)"
proof -
  have "fl (of_int 1 * 2 ^ 1023) = of_int 1 * 2 ^ 1023" by (rule fl_scale) simp
  then have "fl (overflow_threshold / 2) = overflow_threshold / 2"
    by (simp only: half_threshold)
  moreover have "\<bar>overflow_threshold / 2\<bar> < overflow_threshold"
    using overflow_threshold_pos by simp
  ultimately show ?thesis by (simp add: is_double_def)
qed

lemma to_number_threshold: "to_number overflow_threshold = PInf"
proof -
  have "fl (of_int 1 * 2 ^ 1024) = of_int 1 * 2 ^ 1024" by (rule fl_scale) simp
  then have "fl overflow_threshold = overflow_threshold"
    by (simp add: overflow_threshold_def)
  then show ?thesis by (simp add: to_number_overflow)
qed

subsection \<open>Band normalizer\<close>

lemma fadd_nonneg_cases:
  assumes "0 \<le> x" and "0 \<le> y"
  shows "fadd (Fin x) (Fin y) = Fin (fl (x + y)) \<or> fadd (Fin x) (Fin y) = PInf"
proof -
  have "0 \<le> fl (x + y)" using assms by (intro fl_nonneg) simp
  moreover have "0 < overflow_threshold"
    using overflow_threshold_gt by (smt (verit) zero_less_power)
  ultimately show ?thesis by (simp add: to_number_def Let_def)
qed

lemma fadd_Fin_nonneg:
  assumes "fadd (fadd (Fin x) (Fin y)) z = Fin s" and "0 \<le> x" and "0 \<le> y"
  shows "fadd (Fin x) (Fin y) = Fin (fl (x + y))"
  using fadd_nonneg_cases [OF assms(2,3)] assms(1) by (cases z) auto

lemma fl_add_bounds:
  assumes "\<exists>k::int. x = of_int k * 2 powr (- 1074)"
    and "\<exists>k::int. y = of_int k * 2 powr (- 1074)"
    and "0 \<le> x + y"
  shows "(x + y) - (x + y) / 9007199254740992 \<le> fl (x + y)
         \<and> fl (x + y) \<le> (x + y) + (x + y) / 9007199254740992"
proof -
  have "(2::real) powr (- 53) = 1 / 9007199254740992" by (simp add: powr_minus field_simps)
  with fl_add_error [OF assms(1,2)] assms(3)
  have "\<bar>fl (x + y) - (x + y)\<bar> \<le> (x + y) / 9007199254740992" by simp
  then show ?thesis by linarith
qed

lemma rel_step:
  fixes X x y f :: real
  assumes "X * (1 - p) \<le> x" and "x \<le> X * (1 + p)" and "0 \<le> y" and "0 \<le> X"
    and "(x + y) - (x + y) / 9007199254740992 \<le> f"
    and "f \<le> (x + y) + (x + y) / 9007199254740992"
    and "0 \<le> p" and "p \<le> 1"
  shows "(X + y) * (1 - (p + 1 / 1000000000000000)) \<le> f
         \<and> f \<le> (X + y) * (1 + (p + 1 / 1000000000000000))"
proof -
  have xy: "0 \<le> x + y" using assms by (smt (verit) mult_nonneg_nonneg)
  have a: "(X + y) * (1 - p) \<le> x + y"
  proof -
    have "y * (1 - p) \<le> y" using assms(3,7) by (simp add: mult_left_le)
    then show ?thesis using assms(1) by (simp add: distrib_right)
  qed
  have b: "x + y \<le> (X + y) * (1 + p)"
  proof -
    have "y \<le> y * (1 + p)" using assms(3,7) by (simp add: mult_left_le distrib_left)
    then show ?thesis using assms(2) by (simp add: distrib_right)
  qed
  define c :: real where "c = 1 / 9007199254740992"
  have c: "0 \<le> c" "c \<le> 1 / 2000000000000000" by (simp_all add: c_def)
  have "z * (1 - c) = z - z / 9007199254740992" for z :: real
    unfolding c_def by (simp add: right_diff_distrib)
  then have f1: "(x + y) * (1 - c) \<le> f" using assms(5) by (simp only:)
  have "z * (1 + c) = z + z / 9007199254740992" for z :: real
    unfolding c_def by (simp add: distrib_left)
  then have f2: "f \<le> (x + y) * (1 + c)" using assms(6) by (simp only:)
  have XY: "0 \<le> X + y" using assms by simp
  have "(X + y) * ((1 - p) * (1 - c)) \<le> (x + y) * (1 - c)"
    using a c by (simp only: mult.assoc [symmetric]) (intro mult_right_mono, simp_all)
  moreover have "1 - (p + 1 / 1000000000000000) \<le> (1 - p) * (1 - c)"
  proof -
    have "(1 - p) * (1 - c) = 1 - p - c + p * c" by (simp add: algebra_simps)
    moreover have "0 \<le> p * c" using assms(7) c by simp
    ultimately show ?thesis using c by linarith
  qed
  then have "(X + y) * (1 - (p + 1 / 1000000000000000)) \<le> (X + y) * ((1 - p) * (1 - c))"
    using XY by (intro mult_left_mono)
  ultimately have lo: "(X + y) * (1 - (p + 1 / 1000000000000000)) \<le> f" using f1 by linarith
  have "(x + y) * (1 + c) \<le> (X + y) * ((1 + p) * (1 + c))"
    using b c by (simp only: mult.assoc [symmetric]) (intro mult_right_mono, simp_all)
  moreover have "(1 + p) * (1 + c) \<le> 1 + (p + 1 / 1000000000000000)"
  proof -
    have "(1 + p) * (1 + c) = 1 + p + c + p * c" by (simp add: algebra_simps)
    moreover have "p * c \<le> 1 * c" using assms(8) c by (intro mult_right_mono)
    ultimately show ?thesis using c by linarith
  qed
  then have "(X + y) * ((1 + p) * (1 + c)) \<le> (X + y) * (1 + (p + 1 / 1000000000000000))"
    using XY by (intro mult_left_mono)
  ultimately have "f \<le> (X + y) * (1 + (p + 1 / 1000000000000000))" using f2 by linarith
  with lo show ?thesis by blast
qed

lemma band_total_bounds:
  assumes d: "is_double a" "is_double b" "is_double g" "is_double d" "is_double t"
    and n: "0 \<le> a" "0 \<le> b" "0 \<le> g" "0 \<le> d" "0 \<le> t"
    and s: "band_total (finite_bands a b g d t) = Fin s"
  shows "(a + b + g + d + t) * (1 - 1 / 10 ^ 14) \<le> s
         \<and> s \<le> (a + b + g + d + t) * (1 + 1 / 10 ^ 14)"
proof -
  define s1 where "s1 = fl (a + b)"
  define s2 where "s2 = fl (s1 + g)"
  define s3 where "s3 = fl (s2 + d)"
  have p1: "0 \<le> s1" unfolding s1_def using n by (intro fl_nonneg) simp
  have p2: "0 \<le> s2" unfolding s2_def using n p1 by (intro fl_nonneg) simp
  have p3: "0 \<le> s3" unfolding s3_def using n p2 by (intro fl_nonneg) simp
  have t: "fadd (fadd (fadd (fadd (Fin a) (Fin b)) (Fin g)) (Fin d)) (Fin t) = Fin s"
    using s by (simp only: band_total_def finite_bands_def bandNumbers.simps)
  have e3: "fadd (fadd (fadd (Fin a) (Fin b)) (Fin g)) (Fin d) \<noteq> PInf"
    using t by (cases "fadd (fadd (fadd (Fin a) (Fin b)) (Fin g)) (Fin d)") auto
  have e2: "fadd (fadd (Fin a) (Fin b)) (Fin g) \<noteq> PInf"
    using e3 by (cases "fadd (fadd (Fin a) (Fin b)) (Fin g)") auto
  have e1: "fadd (Fin a) (Fin b) \<noteq> PInf"
    using e2 by (cases "fadd (Fin a) (Fin b)") auto
  have f1: "fadd (Fin a) (Fin b) = Fin s1"
    using fadd_nonneg_cases [OF n(1,2)] e1 by (simp only: s1_def) blast
  have f2: "fadd (Fin s1) (Fin g) = Fin s2"
    using fadd_nonneg_cases [OF p1 n(3)] e2 unfolding f1 by (simp only: s2_def) blast
  have f3: "fadd (Fin s2) (Fin d) = Fin s3"
    using fadd_nonneg_cases [OF p2 n(4)] e3 unfolding f1 f2 by (simp only: s3_def) blast
  have f4: "fadd (Fin s3) (Fin t) = Fin (fl (s3 + t))"
    using fadd_nonneg_cases [OF p3 n(5)] t unfolding f1 f2 f3 by auto
  have s4: "s = fl (s3 + t)" using t unfolding f1 f2 f3 f4 by simp
  have q1: "0 \<le> a + b" using n by simp
  have q2: "0 \<le> fl (a + b) + g" using n p1 by (simp add: s1_def)
  have q3: "0 \<le> fl (fl (a + b) + g) + d" using n p2 by (simp add: s1_def s2_def)
  have q4: "0 \<le> fl (fl (fl (a + b) + g) + d) + t" using n p3 by (simp add: s1_def s2_def s3_def)
  have b1: "(a + b) - (a + b) / 9007199254740992 \<le> s1
            \<and> s1 \<le> (a + b) + (a + b) / 9007199254740992"
    unfolding s1_def
    by (rule fl_add_bounds [OF is_double_grid [OF d(1)] is_double_grid [OF d(2)] q1])
  have b2: "(s1 + g) - (s1 + g) / 9007199254740992 \<le> s2
            \<and> s2 \<le> (s1 + g) + (s1 + g) / 9007199254740992"
    unfolding s2_def s1_def
    by (rule fl_add_bounds [OF fl_grid is_double_grid [OF d(3)] q2])
  have b3: "(s2 + d) - (s2 + d) / 9007199254740992 \<le> s3
            \<and> s3 \<le> (s2 + d) + (s2 + d) / 9007199254740992"
    unfolding s3_def s2_def s1_def
    by (rule fl_add_bounds [OF fl_grid is_double_grid [OF d(4)] q3])
  have b4: "(s3 + t) - (s3 + t) / 9007199254740992 \<le> s
            \<and> s \<le> (s3 + t) + (s3 + t) / 9007199254740992"
    unfolding s4 s3_def s2_def s1_def
    by (rule fl_add_bounds [OF fl_grid is_double_grid [OF d(5)] q4])
  have r1: "(a + b) * (1 - (0 + 1 / 1000000000000000)) \<le> s1
            \<and> s1 \<le> (a + b) * (1 + (0 + 1 / 1000000000000000))"
    using b1 n by (intro rel_step [of a 0 a b]) simp_all
  have r2: "(a + b + g) * (1 - (0 + 1 / 1000000000000000 + 1 / 1000000000000000)) \<le> s2
            \<and> s2 \<le> (a + b + g) * (1 + (0 + 1 / 1000000000000000 + 1 / 1000000000000000))"
    using b2 r1 n by (intro rel_step [of "a + b" _ s1 g]) simp_all
  have r3: "(a + b + g + d)
              * (1 - (0 + 1 / 1000000000000000 + 1 / 1000000000000000 + 1 / 1000000000000000))
              \<le> s3
            \<and> s3 \<le> (a + b + g + d)
              * (1 + (0 + 1 / 1000000000000000 + 1 / 1000000000000000 + 1 / 1000000000000000))"
    using b3 r2 n by (intro rel_step [of "a + b + g" _ s2 d]) simp_all
  have r4: "(a + b + g + d + t)
              * (1 - (0 + 1 / 1000000000000000 + 1 / 1000000000000000 + 1 / 1000000000000000
                      + 1 / 1000000000000000))
              \<le> s
            \<and> s \<le> (a + b + g + d + t)
              * (1 + (0 + 1 / 1000000000000000 + 1 / 1000000000000000 + 1 / 1000000000000000
                      + 1 / 1000000000000000))"
    using b4 r3 n by (intro rel_step [of "a + b + g + d" _ s3 t]) simp_all
  define S where "S = a + b + g + d + t"
  have S: "0 \<le> S" using n by (simp add: S_def)
  have "S * (1 - 1 / 10 ^ 14) \<le> S * (1 - 1 / 250000000000000)"
    using S by (intro mult_left_mono) simp_all
  moreover have "S * (1 + 1 / 250000000000000) \<le> S * (1 + 1 / 10 ^ 14)"
    using S by (intro mult_left_mono) simp_all
  moreover have "S * (1 - 1 / 250000000000000) \<le> s \<and> s \<le> S * (1 + 1 / 250000000000000)"
    using r4 unfolding S_def [symmetric] by simp
  ultimately show ?thesis unfolding S_def [symmetric] by linarith
qed

lemma quotient_error:
  assumes "0 \<le> q" and "q \<le> 2"
  shows "to_number q = Fin (fl q) \<and> 0 \<le> fl q
         \<and> \<bar>fl q - q\<bar> \<le> q / 9007199254740992 + 1 / 10 ^ 12"
proof -
  have "\<bar>q\<bar> \<le> 2" using assms by simp
  then have a: "to_number q = Fin (fl q)" by (rule small_Fin)
  have b: "0 \<le> fl q" using assms(1) by (rule fl_nonneg)
  have p: "(2::real) powr (- 53) = 1 / 9007199254740992" by (simp add: powr_minus field_simps)
  have "(2::real) powr (- 1075) \<le> 2 powr (- 40)" by (intro powr_mono) simp_all
  also have "\<dots> \<le> 1 / 10 ^ 12" by (simp add: powr_minus field_simps)
  finally have "(2::real) powr (- 1075) \<le> 1 / 10 ^ 12" .
  with fl_error [of q] assms(1) have "\<bar>fl q - q\<bar> \<le> q / 9007199254740992 + 1 / 10 ^ 12"
    unfolding p by simp
  with a b show ?thesis by blast
qed

lemma normalizeBrainwaves_finite:
  assumes d: "is_double a" "is_double b" "is_double g" "is_double d" "is_double t"
    and n: "0 \<le> a" "0 \<le> b" "0 \<le> g" "0 \<le> d" "0 \<le> t"
    and s: "band_total (finite_bands a b g d t) = Fin s" and pos: "0 < s"
  shows "normalizeBrainwaves (finite_bands a b g d t)
           = finite_bands (fl (a / s)) (fl (b / s)) (fl (g / s)) (fl (d / s)) (fl (t / s))
         \<and> \<bar>fl (a / s) + fl (b / s) + fl (g / s) + fl (d / s) + fl (t / s) - 1\<bar> \<le> 1 / 10 ^ 9"
proof -
  define S where "S = a + b + g + d + t"
  have bd: "S * (1 - 1 / 10 ^ 14) \<le> s \<and> s \<le> S * (1 + 1 / 10 ^ 14)"
    unfolding S_def by (rule band_total_bounds [OF d n s])
  have S: "0 \<le> S" using n by (simp add: S_def)
  have hi: "S / s \<le> 1 + 1 / 10000000000000"
  proof -
    have "S \<le> (1 + 1 / 10000000000000) * (S * (1 - 1 / 10 ^ 14))"
      using S by (simp add: algebra_simps)
    also have "\<dots> \<le> (1 + 1 / 10000000000000) * s" using bd by (intro mult_left_mono) simp_all
    finally show ?thesis using pos by (simp add: pos_divide_le_eq)
  qed
  have lo: "1 - 1 / 10000000000000 \<le> S / s"
  proof -
    have "(1 - 1 / 10000000000000) * s \<le> (1 - 1 / 10000000000000) * (S * (1 + 1 / 10 ^ 14))"
      using bd by (intro mult_left_mono) simp_all
    also have "\<dots> \<le> S" using S by (simp add: algebra_simps)
    finally show ?thesis using pos by (simp add: pos_le_divide_eq)
  qed
  have sum: "S / s = a / s + b / s + g / s + d / s + t / s"
    by (simp add: S_def add_divide_distrib)
  have q0: "0 \<le> a / s" "0 \<le> b / s" "0 \<le> g / s" "0 \<le> d / s" "0 \<le> t / s"
    using n pos by simp_all
  have "S / s \<le> 2" using hi by linarith
  then have q2: "a / s \<le> 2" "b / s \<le> 2" "g / s \<le> 2" "d / s \<le> 2" "t / s \<le> 2"
    using q0 sum by linarith+
  note e = quotient_error [OF q0(1) q2(1)] quotient_error [OF q0(2) q2(2)]
    quotient_error [OF q0(3) q2(3)] quotient_error [OF q0(4) q2(4)]
    quotient_error [OF q0(5) q2(5)]
  have tot: "fadd (fadd (fadd (fadd (Fin a) (Fin b)) (Fin g)) (Fin d)) (Fin t) = Fin s"
    using s by (simp only: band_total_def finite_bands_def bandNumbers.simps)
  have nz: "s \<noteq> 0" using pos by simp
  have "normalizeBrainwaves (finite_bands a b g d t)
          = finite_bands (fl (a / s)) (fl (b / s)) (fl (g / s)) (fl (d / s)) (fl (t / s))"
    unfolding normalizeBrainwaves_def
    by (simp add: finite_bands_def tot strict_eq_def nz e del: fadd.simps)
  moreover have "\<bar>fl (a / s) + fl (b / s) + fl (g / s) + fl (d / s) + fl (t / s) - 1\<bar>
                   \<le> 1 / 10 ^ 9"
  proof -
    define A where "A = a / s"
    define B where "B = b / s"
    define G where "G = g / s"
    define D where "D = d / s"
    define T where "T = t / s"
    define R where "R = S / s"
    have 1: "R = A + B + G + D + T" "R \<le> 1 + 1 / 10000000000000" "1 - 1 / 10000000000000 \<le> R"
      unfolding A_def B_def G_def D_def T_def R_def by (rule sum hi lo)+
    have 2: "\<bar>fl A - A\<bar> \<le> A / 9007199254740992 + 1 / 1000000000000"
      "\<bar>fl B - B\<bar> \<le> B / 9007199254740992 + 1 / 1000000000000"
      "\<bar>fl G - G\<bar> \<le> G / 9007199254740992 + 1 / 1000000000000"
      "\<bar>fl D - D\<bar> \<le> D / 9007199254740992 + 1 / 1000000000000"
      "\<bar>fl T - T\<bar> \<le> T / 9007199254740992 + 1 / 1000000000000"
      unfolding A_def B_def G_def D_def T_def using e by simp_all
    have "\<bar>fl A + fl B + fl G + fl D + fl T - 1\<bar> \<le> 1 / 1000000000"
      using 1 2 by linarith
    then show ?thesis by (simp add: A_def B_def G_def D_def T_def)
  qed
  ultimately show ?thesis by blast
qed

lemma band_total_positive:
  assumes d: "is_double a" "is_double b" "is_double g" "is_double d" "is_double t"
    and n: "0 \<le> a" "0 \<le> b" "0 \<le> g" "0 \<le> d" "0 \<le> t"
    and s: "band_total (finite_bands a b g d t) = Fin s"
  shows "(0 < s) = (0 < a + b + g + d + t)"
proof -
  define S where "S = a + b + g + d + t"
  have bd: "S * (1 - 1 / 10 ^ 14) \<le> s \<and> s \<le> S * (1 + 1 / 10 ^ 14)"
    unfolding S_def by (rule band_total_bounds [OF d n s])
  have "0 < S \<Longrightarrow> 0 < S * (1 - 1 / 10 ^ 14)" by simp
  moreover have "S \<le> 0 \<Longrightarrow> S * (1 + 1 / 10 ^ 14) \<le> 0"
    by (simp add: mult_le_0_iff)
  ultimately show ?thesis unfolding S_def [symmetric] using bd by linarith
qed

text \<open>
  Claim C4, amended. When the sum, as the source computes it, is exactly 0, the input
  object is returned unchanged. For five doubles that are not negative and whose computed
  sum is finite, that sum is positive exactly when the exact sum is, and then the five
  outputs are finite and sum to 1 within \<open>1e-9\<close>.
\<close>

theorem normalizeBrainwaves_sum:
  "(band_total r = Fin 0 \<longrightarrow> normalizeBrainwaves r = r)
   \<and> (is_double a \<and> is_double b \<and> is_double g \<and> is_double d \<and> is_double t
      \<and> 0 \<le> a \<and> 0 \<le> b \<and> 0 \<le> g \<and> 0 \<le> d \<and> 0 \<le> t
      \<and> band_total (finite_bands a b g d t) = Fin s \<longrightarrow>
        (0 < s) = (0 < a + b + g + d + t)
        \<and> (0 < s \<longrightarrow>
             (\<exists>a' b' g' d' t'.
                normalizeBrainwaves (finite_bands a b g d t) = finite_bands a' b' g' d' t'
                \<and> \<bar>a' + b' + g' + d' + t' - 1\<bar> \<le> 1 / 10 ^ 9)))"
proof (intro conjI impI)
  assume "band_total r = Fin 0"
  then show "normalizeBrainwaves r = r"
    by (simp add: normalizeBrainwaves_def band_total_def strict_eq_def)
next
  assume h: "is_double a \<and> is_double b \<and> is_double g \<and> is_double d \<and> is_double t
      \<and> 0 \<le> a \<and> 0 \<le> b \<and> 0 \<le> g \<and> 0 \<le> d \<and> 0 \<le> t
      \<and> band_total (finite_bands a b g d t) = Fin s"
  then show "(0 < s) = (0 < a + b + g + d + t)"
    by (intro band_total_positive) blast+
next
  assume h: "is_double a \<and> is_double b \<and> is_double g \<and> is_double d \<and> is_double t
      \<and> 0 \<le> a \<and> 0 \<le> b \<and> 0 \<le> g \<and> 0 \<le> d \<and> 0 \<le> t
      \<and> band_total (finite_bands a b g d t) = Fin s"
    and pos: "0 < s"
  from h have "normalizeBrainwaves (finite_bands a b g d t)
           = finite_bands (fl (a / s)) (fl (b / s)) (fl (g / s)) (fl (d / s)) (fl (t / s))
         \<and> \<bar>fl (a / s) + fl (b / s) + fl (g / s) + fl (d / s) + fl (t / s) - 1\<bar> \<le> 1 / 10 ^ 9"
    by (intro normalizeBrainwaves_finite pos) blast+
  then show "\<exists>a' b' g' d' t'.
                normalizeBrainwaves (finite_bands a b g d t) = finite_bands a' b' g' d' t'
                \<and> \<bar>a' + b' + g' + d' + t' - 1\<bar> \<le> 1 / 10 ^ 9"
    by blast
qed

theorem normalizeBrainwaves_sum_witness:
  "normalizeBrainwaves (finite_bands 0 0 0 0 0) = finite_bands 0 0 0 0 0
   \<and> band_total (finite_bands 1 2 3 4 6) = Fin 16
   \<and> (\<exists>a' b' g' d' t'.
         normalizeBrainwaves (finite_bands 1 2 3 4 6) = finite_bands a' b' g' d' t'
         \<and> \<bar>a' + b' + g' + d' + t' - 1\<bar> \<le> 1 / 10 ^ 9)"
proof -
  have z: "band_total (finite_bands 0 0 0 0 0) = Fin 0"
    by (simp add: band_total_def finite_bands_def to_number_zero)
  have s: "band_total (finite_bands 1 2 3 4 6) = Fin 16"
    by (simp add: band_total_def finite_bands_def to_number_numeral)
  have d: "is_double 1" "is_double 2" "is_double 3" "is_double 4" "is_double 6"
    using is_double_of_int [of 1] by (simp_all add: is_double_numeral)
  from normalizeBrainwaves_sum [of "finite_bands 0 0 0 0 0" 1 2 3 4 6 16] z s d
  show ?thesis by simp
qed

text \<open>
  Claim C4 as worded fails when the sum overflows: for \<open>alpha = beta = 2^1023\<close> and the
  other bands 0 the inputs are doubles, not negative and of positive sum, the computed
  total is \<open>Infinity\<close>, every output is 0, and the outputs sum to 0.
\<close>

theorem normalizeBrainwaves_sum_counterexample:
  "is_double (overflow_threshold / 2) \<and> is_double 0
   \<and> 0 < overflow_threshold / 2 + overflow_threshold / 2 + 0 + 0 + 0
   \<and> band_total (finite_bands (overflow_threshold / 2) (overflow_threshold / 2) 0 0 0) = PInf
   \<and> normalizeBrainwaves (finite_bands (overflow_threshold / 2) (overflow_threshold / 2) 0 0 0)
       = finite_bands 0 0 0 0 0
   \<and> \<not> \<bar>(0::real) + 0 + 0 + 0 + 0 - 1\<bar> \<le> 1 / 10 ^ 9"
proof -
  have a: "fadd (Fin (overflow_threshold / 2)) (Fin (overflow_threshold / 2)) = PInf"
    by (simp add: to_number_threshold)
  have t: "band_total (finite_bands (overflow_threshold / 2) (overflow_threshold / 2) 0 0 0) = PInf"
    by (simp add: band_total_def finite_bands_def a del: fadd.simps) simp
  have n: "normalizeBrainwaves (finite_bands (overflow_threshold / 2) (overflow_threshold / 2) 0 0 0)
       = finite_bands 0 0 0 0 0"
    using t
    by (simp add: normalizeBrainwaves_def band_total_def finite_bands_def strict_eq_def
        del: fadd.simps)
  show ?thesis
    using is_double_half_threshold is_double_zero overflow_threshold_pos t n by simp
qed

subsection \<open>Activeness state\<close>

lemma fl_two_thirds: "fl (2 / 3) = double_two_thirds"
proof -
  have "fl (2 / 3) = of_int 6004799503160661 * 2 powr of_int (- 1 - 52)"
    by (rule fl_eval) (simp_all add: powr_minus)
  then show ?thesis by (simp add: double_two_thirds_def powr_minus)
qed

lemma fl_one_third: "fl (1 / 3) = double_one_third"
proof -
  have "fl (1 / 3) = of_int 6004799503160661 * 2 powr of_int (- 2 - 52)"
    by (rule fl_eval) (simp_all add: powr_minus)
  then show ?thesis by (simp add: double_one_third_def powr_minus)
qed

lemma two_thirds_num: "fdiv (Fin 2) (Fin 3) = Fin double_two_thirds"
  using small_Fin [of "2 / 3"] by (simp add: fl_two_thirds)

lemma one_third_num: "fdiv (Fin 1) (Fin 3) = Fin double_one_third"
  using small_Fin [of "1 / 3"] by (simp add: fl_one_third)

lemma num_ge_Fin: "num_ge (Fin a) (Fin b) = (b \<le> a)"
  by (auto simp: num_ge_def strict_eq_def)

lemma fl_unit_error:
  assumes "0 \<le> q" and "q \<le> 1"
  shows "\<bar>fl q - q\<bar> \<le> 1 / 4503599627370496"
proof -
  have "(2::real) powr (- 1075) \<le> 2 powr (- 53)" by (rule powr_mono) simp_all
  moreover have "2 powr (- 53) * \<bar>q\<bar> \<le> 2 powr (- 53) * 1"
    using assms by (intro mult_left_mono) simp_all
  ultimately have "\<bar>fl q - q\<bar> \<le> 2 powr (- 53) + 2 powr (- 53)"
    using fl_error [of q] by linarith
  then show ?thesis by (simp add: powr_minus)
qed

lemma ratio_ge_double:
  assumes n: "0 < n" "n < 2 ^ 32" and c: "c \<le> n"
  shows "num_ge (fdiv (Fin (real c)) (Fin (real n))) (Fin double_two_thirds) = (2 * n \<le> 3 * c)"
proof -
  define q where "q = real c / real n"
  have q0: "0 \<le> q" and q1: "q \<le> 1" using n c by (simp_all add: q_def)
  have "\<bar>q\<bar> \<le> 2" using q0 q1 by simp
  then have "to_number q = Fin (fl q)" by (rule small_Fin)
  then have fin: "fdiv (Fin (real c)) (Fin (real n)) = Fin (fl q)"
    using n(1) by (simp add: q_def)
  have err: "\<bar>fl q - q\<bar> \<le> 1 / 4503599627370496" by (rule fl_unit_error [OF q0 q1])
  have d: "double_two_thirds = 6004799503160661 / 9007199254740992"
    by (simp add: double_two_thirds_def)
  have rn: "real n < 2 ^ 32" using n(2) by (metis of_nat_less_numeral_power_cancel_iff)
  define r where "r = 1 / real n"
  have "1 / 2 ^ 32 < 1 / real n"
    using n(1) rn by (intro divide_strict_left_mono) simp_all
  then have inv: "1 / 4294967296 < r" by (simp add: r_def)
  have "(double_two_thirds \<le> fl q) = (2 * n \<le> 3 * c)"
  proof (cases "2 * n \<le> 3 * c")
    case True
    show ?thesis
    proof (cases "3 * c = 2 * n")
      case True
      then have "3 * real c = 2 * real n" by (metis of_nat_mult of_nat_numeral)
      then have "q = 2 / 3" using n(1) by (simp add: q_def field_simps)
      then have "fl q = double_two_thirds" by (simp only: fl_two_thirds)
      then show ?thesis using \<open>2 * n \<le> 3 * c\<close> by simp
    next
      case False
      with True have "2 * n + 1 \<le> 3 * c" by simp
      then have "real (2 * n + 1) \<le> real (3 * c)" by (rule iffD2 [OF of_nat_le_iff])
      then have "2 * real n + 1 \<le> 3 * real c" by simp
      then have "(2 * real n + 1) / (3 * real n) \<le> (3 * real c) / (3 * real n)"
        by (intro divide_right_mono) simp_all
      moreover have "(2 * real n + 1) / (3 * real n) = 2 / 3 + r / 3"
        using n(1) by (simp add: add_divide_distrib r_def)
      moreover have "(3 * real c) / (3 * real n) = q" by (simp add: q_def)
      ultimately have "2 / 3 + r / 3 \<le> q" by simp
      then have "2 / 3 + (1 / 4294967296) / 3 < q" using inv by linarith
      then have "double_two_thirds \<le> fl q"
        using err unfolding d by linarith
      then show ?thesis using True by simp
    qed
  next
    case False
    then have "3 * c + 1 \<le> 2 * n" by simp
    then have "real (3 * c + 1) \<le> real (2 * n)" by (rule iffD2 [OF of_nat_le_iff])
    then have "3 * real c + 1 \<le> 2 * real n" by simp
    then have "(3 * real c + 1) / (3 * real n) \<le> (2 * real n) / (3 * real n)"
      by (intro divide_right_mono) simp_all
    moreover have "(3 * real c + 1) / (3 * real n) = q + r / 3"
      using n(1) by (simp add: add_divide_distrib q_def r_def)
    moreover have "(2 * real n) / (3 * real n) = 2 / 3" using n(1) by simp
    ultimately have "q + r / 3 \<le> 2 / 3" by simp
    then have "q < 2 / 3 - (1 / 4294967296) / 3" using inv by linarith
    then have "fl q < double_two_thirds"
      using err unfolding d by linarith
    then show ?thesis using False by simp
  qed
  then show ?thesis unfolding fin num_ge_Fin .
qed

lemma activeness_step_double:
  "activeness_step v (a, c, m) =
     (if double_two_thirds \<le> v then (a + 1, c, m)
      else if double_one_third \<le> v then (a, c + 1, m)
      else (a, c, m + 1))"
  by (simp only: activeness_step.simps two_thirds_num one_third_num num_ge_Fin)

lemma fold_activeness_step:
  "fold activeness_step arr (a, c, m) =
     (a + length (filter (\<lambda>v. double_two_thirds \<le> v) arr),
      c + length (filter (\<lambda>v. double_one_third \<le> v \<and> v < double_two_thirds) arr),
      m + length (filter (\<lambda>v. v < double_one_third) arr))"
proof (induction arr arbitrary: a c m)
  case Nil
  then show ?case by simp
next
  case (Cons v arr)
  have o: "double_one_third \<le> double_two_thirds"
    by (simp add: double_one_third_def double_two_thirds_def)
  show ?case
    unfolding fold_Cons comp_apply activeness_step_double
    using o by (auto simp: Cons.IH simp del: activeness_step.simps)
qed

lemma bucket_partition:
  "length (filter (\<lambda>v. double_two_thirds \<le> v) arr)
   + length (filter (\<lambda>v. double_one_third \<le> v \<and> v < double_two_thirds) arr)
   + length (filter (\<lambda>v. v < double_one_third) arr) = length arr"
proof (induction arr)
  case Nil
  then show ?case by simp
next
  case (Cons v arr)
  have o: "double_one_third \<le> double_two_thirds"
    by (simp add: double_one_third_def double_two_thirds_def)
  show ?case using Cons o by auto
qed

lemma getActivenessState_counts:
  assumes "arr \<noteq> []" and "length arr < 2 ^ 32"
  shows "getActivenessState (Some arr) =
     Some (if 2 * length arr \<le> 3 * length (filter (\<lambda>v. double_two_thirds \<le> v) arr)
           then ''active''
           else if 2 * length arr
                   \<le> 3 * length (filter (\<lambda>v. double_one_third \<le> v \<and> v < double_two_thirds) arr)
           then ''clear''
           else if 2 * length arr \<le> 3 * length (filter (\<lambda>v. v < double_one_third) arr)
           then ''meditation''
           else ''generic'')"
proof -
  have n: "0 < length arr" using assms(1) by simp
  define na where "na = length (filter (\<lambda>v. double_two_thirds \<le> v) arr)"
  define nc where
    "nc = length (filter (\<lambda>v. double_one_third \<le> v \<and> v < double_two_thirds) arr)"
  define nm where "nm = length (filter (\<lambda>v. v < double_one_third) arr)"
  have f: "fold activeness_step arr (0, 0, 0) = (na, nc, nm)"
    unfolding na_def nc_def nm_def fold_activeness_step by simp
  have le: "na \<le> length arr" "nc \<le> length arr" "nm \<le> length arr"
    unfolding na_def nc_def nm_def by simp_all
  note r = ratio_ge_double [OF n assms(2)]
  have "getActivenessState (Some arr) =
     Some (if 2 * length arr \<le> 3 * na then ''active''
           else if 2 * length arr \<le> 3 * nc then ''clear''
           else if 2 * length arr \<le> 3 * nm then ''meditation''
           else ''generic'')"
    unfolding getActivenessState_def option.case f prod.case Let_def two_thirds_num
      r [OF le(1)] r [OF le(2)] r [OF le(3)]
    using assms(1) by simp
  then show ?thesis unfolding na_def nc_def nm_def .
qed

lemma ratio_ge: "0 < n \<Longrightarrow> (2 / 3 \<le> real k / real n) = (2 * n \<le> 3 * k)"
proof -
  assume n: "0 < n"
  have "(2 / 3 \<le> real k / real n) = (2 * real n \<le> 3 * real k)"
    using n by (simp add: field_simps)
  also have "\<dots> = (real (2 * n) \<le> real (3 * k))" by simp
  also have "\<dots> = (2 * n \<le> 3 * k)" by (simp only: of_nat_le_iff)
  finally show ?thesis .
qed

lemma bucket_fraction_ge:
  "arr \<noteq> [] \<Longrightarrow>
     (bucket_fraction P arr \<ge> 2 / 3) = (2 * length arr \<le> 3 * length (filter P arr))"
  unfolding bucket_fraction_def by (rule ratio_ge) simp

lemma bucket_fraction_less:
  "arr \<noteq> [] \<Longrightarrow>
     (bucket_fraction P arr < 2 / 3) = (3 * length (filter P arr) < 2 * length arr)"
proof -
  assume ne: "arr \<noteq> []"
  have "(bucket_fraction P arr < 2 / 3) = (\<not> bucket_fraction P arr \<ge> 2 / 3)"
    by (simp only: not_le)
  also have "\<dots> = (\<not> 2 * length arr \<le> 3 * length (filter P arr))"
    by (simp only: bucket_fraction_ge [OF ne])
  also have "\<dots> = (3 * length (filter P arr) < 2 * length arr)"
    by (simp only: not_le)
  finally show ?thesis .
qed

lemma filter_length_mono:
  "(\<And>x. P x \<Longrightarrow> Q x) \<Longrightarrow> length (filter P xs) \<le> length (filter Q xs)"
  by (induction xs) auto

text \<open>
  Claim C7. The expressions \<open>2/3\<close> and \<open>1/3\<close> evaluate to the doubles
  \<open>double_two_thirds\<close> and \<open>double_one_third\<close>. A missing or empty array gives \<open>null\<close>.
  For a non-empty array (a JavaScript array has fewer than \<open>2^32\<close> elements) the result is
  \<open>active\<close>, \<open>clear\<close> or \<open>meditation\<close> exactly when the fraction of samples with
  \<open>v \<ge> 2/3\<close>, with \<open>1/3 \<le> v < 2/3\<close>, or with \<open>v < 1/3\<close>, the thresholds being those
  doubles, is at least two thirds, and \<open>generic\<close> exactly when no fraction is. Ten samples
  of which seven are \<open>\<ge> 2/3\<close> give \<open>active\<close>.
\<close>

theorem getActivenessState_buckets:
  "fdiv (Fin 2) (Fin 3) = Fin double_two_thirds \<and> fdiv (Fin 1) (Fin 3) = Fin double_one_third
   \<and> getActivenessState None = None \<and> getActivenessState (Some []) = None
   \<and> (arr \<noteq> [] \<and> length arr < 2 ^ 32 \<longrightarrow>
        (getActivenessState (Some arr) = Some ''active''
           \<longleftrightarrow> bucket_fraction (\<lambda>v. v \<ge> double_two_thirds) arr \<ge> 2 / 3)
      \<and> (getActivenessState (Some arr) = Some ''clear''
           \<longleftrightarrow> bucket_fraction (\<lambda>v. double_one_third \<le> v \<and> v < double_two_thirds) arr
                 \<ge> 2 / 3)
      \<and> (getActivenessState (Some arr) = Some ''meditation''
           \<longleftrightarrow> bucket_fraction (\<lambda>v. v < double_one_third) arr \<ge> 2 / 3)
      \<and> (getActivenessState (Some arr) = Some ''generic''
           \<longleftrightarrow> bucket_fraction (\<lambda>v. v \<ge> double_two_thirds) arr < 2 / 3
             \<and> bucket_fraction (\<lambda>v. double_one_third \<le> v \<and> v < double_two_thirds) arr
                 < 2 / 3
             \<and> bucket_fraction (\<lambda>v. v < double_one_third) arr < 2 / 3))
   \<and> (length arr = 10 \<and> length (filter (\<lambda>v. v \<ge> 2 / 3) arr) = 7
        \<longrightarrow> getActivenessState (Some arr) = Some ''active'')"
proof (intro conjI impI)
  show "fdiv (Fin 2) (Fin 3) = Fin double_two_thirds" by (rule two_thirds_num)
  show "fdiv (Fin 1) (Fin 3) = Fin double_one_third" by (rule one_third_num)
  show "getActivenessState None = None" by (simp add: getActivenessState_def)
  show "getActivenessState (Some []) = None" by (simp add: getActivenessState_def)
next
  assume h: "arr \<noteq> [] \<and> length arr < 2 ^ 32"
  then have ne: "arr \<noteq> []" and lt: "length arr < 2 ^ 32" by blast+
  define na where "na = length (filter (\<lambda>v. double_two_thirds \<le> v) arr)"
  define nc where
    "nc = length (filter (\<lambda>v. double_one_third \<le> v \<and> v < double_two_thirds) arr)"
  define nm where "nm = length (filter (\<lambda>v. v < double_one_third) arr)"
  have "na + nc + nm = length arr"
    unfolding na_def nc_def nm_def by (rule bucket_partition)
  then have p: "na + nc + nm = length arr \<and> 0 < length arr"
    using ne by simp
  have c: "getActivenessState (Some arr) =
     Some (if 2 * length arr \<le> 3 * na then ''active''
           else if 2 * length arr \<le> 3 * nc then ''clear''
           else if 2 * length arr \<le> 3 * nm then ''meditation''
           else ''generic'')"
    unfolding na_def nc_def nm_def by (rule getActivenessState_counts [OF ne lt])
  show "(getActivenessState (Some arr) = Some ''active'')
           = (bucket_fraction (\<lambda>v. v \<ge> double_two_thirds) arr \<ge> 2 / 3)"
    unfolding bucket_fraction_ge [OF ne] na_def [symmetric] c by simp
  show "(getActivenessState (Some arr) = Some ''clear'')
           = (bucket_fraction (\<lambda>v. double_one_third \<le> v \<and> v < double_two_thirds) arr
                 \<ge> 2 / 3)"
    unfolding bucket_fraction_ge [OF ne] nc_def [symmetric] c
    using p by (auto simp del: length_greater_0_conv)
  show "(getActivenessState (Some arr) = Some ''meditation'')
           = (bucket_fraction (\<lambda>v. v < double_one_third) arr \<ge> 2 / 3)"
    unfolding bucket_fraction_ge [OF ne] nm_def [symmetric] c
    using p by (auto simp del: length_greater_0_conv)
  show "(getActivenessState (Some arr) = Some ''generic'')
           = (bucket_fraction (\<lambda>v. v \<ge> double_two_thirds) arr < 2 / 3
             \<and> bucket_fraction (\<lambda>v. double_one_third \<le> v \<and> v < double_two_thirds) arr
                 < 2 / 3
             \<and> bucket_fraction (\<lambda>v. v < double_one_third) arr < 2 / 3)"
    unfolding bucket_fraction_less [OF ne] na_def [symmetric] nc_def [symmetric]
      nm_def [symmetric] c
    using p by (auto simp del: length_greater_0_conv)
next
  assume h: "length arr = 10 \<and> length (filter (\<lambda>v. v \<ge> 2 / 3) arr) = 7"
  then have ne: "arr \<noteq> []" by auto
  from h have l: "length arr = 10"
    and f: "length (filter (\<lambda>v. v \<ge> 2 / 3) arr) = 7" by blast+
  have lt: "length arr < 2 ^ 32" unfolding l by simp
  have "double_two_thirds \<le> 2 / 3" by (simp add: double_two_thirds_def)
  then have "length (filter (\<lambda>v. v \<ge> 2 / 3) arr)
               \<le> length (filter (\<lambda>v. double_two_thirds \<le> v) arr)"
    by (intro filter_length_mono) simp
  then have "7 \<le> length (filter (\<lambda>v. double_two_thirds \<le> v) arr)" unfolding f .
  then show "getActivenessState (Some arr) = Some ''active''"
    unfolding getActivenessState_counts [OF ne lt] l by simp
qed

theorem getActivenessState_buckets_witness:
  "getActivenessState (Some [1, 0.75, 0.75, 0.875, 1, 1, 0.75, 0.5, 0.25, 0.125]) = Some ''active''
   \<and> getActivenessState (Some [double_two_thirds, double_two_thirds, 0]) = Some ''active''
   \<and> getActivenessState (Some [1, 0.5, 0.125]) = Some ''generic''"
  using getActivenessState_buckets [of "[1, 0.75, 0.75, 0.875, 1, 1, 0.75, 0.5, 0.25, 0.125]"]
        getActivenessState_buckets [of "[double_two_thirds, double_two_thirds, 0]"]
        getActivenessState_buckets [of "[1, 0.5, 0.125]"]
  by (simp add: bucket_fraction_def double_two_thirds_def double_one_third_def)

subsection \<open>Dominant pattern, reduced page\<close>

lemma reduced_fold4:
  fixes a be g t :: real
  shows "fst (fold reduced_step [(''alpha'', a), (''beta'', be), (''gamma'', g), (''theta'', t)]
               (''balanced'', 0)) =
        (if max (max (max a be) g) t > 0.25
         then ''high_'' @ (if a = max (max (max a be) g) t then ''alpha''
                          else if be = max (max (max a be) g) t then ''beta''
                          else if g = max (max (max a be) g) t then ''gamma''
                          else ''theta'')
         else ''balanced'')"
proof -
  consider (A) "be \<le> a" "g \<le> a" "t \<le> a"
    | (B) "a < be" "g \<le> be" "t \<le> be"
    | (G) "a < g" "be < g" "t \<le> g"
    | (T) "a < t" "be < t" "g < t"
    by linarith
  then show ?thesis
  proof cases
    case A
    then have m: "max (max (max a be) g) t = a" by simp
    show ?thesis unfolding m using A by (cases "a > 0.25") auto
  next
    case B
    then have m: "max (max (max a be) g) t = be" by simp
    show ?thesis unfolding m using B by (cases "be > 0.25"; cases "a > 0.25") auto
  next
    case G
    then have m: "max (max (max a be) g) t = g" by simp
    show ?thesis unfolding m using G
      by (cases "g > 0.25"; cases "a > 0.25"; cases "be > 0.25"; cases "a < be") auto
  next
    case T
    then have m: "max (max (max a be) g) t = t" by simp
    show ?thesis unfolding m using T
      by (cases "t > 0.25"; cases "a > 0.25"; cases "be > 0.25"; cases "g > 0.25";
          cases "a < be"; cases "be < g"; cases "a < g") auto
  qed
qed

lemma band_fallback_eq:
  "band_fallback b =
     (if Math_max4 (alpha b) (beta b) (gamma b) (theta b) > 0.25
      then ''high_'' @ first_max_band b else ''balanced'')"
  unfolding band_fallback_def reduced_waves_def first_max_band_def Math_max4_def Let_def
  by (rule reduced_fold4)

lemma reduced_ml_cases:
  fixes f c m d :: real
  defines "mx \<equiv> max (max (max f c) m) d"
  shows "(if m = mx \<and> m > 0.6 then ''high_meditation''
          else if f = mx \<and> f > 0.7 then ''high_focus''
          else if c = mx \<and> c > 0.7 then ''high_clear''
          else if d = mx \<and> d > 0.7 then ''high_dream''
          else fb) =
         (if mx > 0.7 \<or> (m = mx \<and> mx > 0.6)
          then ''high_'' @ (if m = mx then ''meditation''
                           else if f = mx then ''focus''
                           else if c = mx then ''clear''
                           else ''dream'')
          else fb)"
proof -
  have le: "f \<le> mx" "c \<le> mx" "m \<le> mx" "d \<le> mx" by (simp_all add: mx_def)
  have one: "mx = f \<or> mx = c \<or> mx = m \<or> mx = d"
    unfolding mx_def by linarith
  consider (M) "m = mx" | (F) "m \<noteq> mx" "f = mx" | (C) "m \<noteq> mx" "f \<noteq> mx" "c = mx"
    | (D) "m \<noteq> mx" "f \<noteq> mx" "c \<noteq> mx" "d = mx"
    using one by blast
  then show ?thesis
  proof cases
    case M
    then show ?thesis using le by (cases "mx > 0.6"; cases "mx > 0.7") auto
  next
    case F
    then show ?thesis using le by (cases "mx > 0.7") auto
  next
    case C
    then show ?thesis using le by (cases "mx > 0.7") auto
  next
    case D
    then show ?thesis using le by (cases "mx > 0.7") auto
  qed
qed

text \<open>
  Claim C3, as amended. The reduced classifier returns \<open>high_\<close> followed by an ML state
  only for the state that holds the largest of the four scores (the first of meditation,
  focus, clear, dream on a tie), and only when that largest score exceeds 0.7, or 0.6 when
  it is meditation's. In every other case it returns the band fallback: \<open>high_\<close> followed
  by the first of alpha, beta, gamma, theta holding the largest value when that value
  exceeds 0.25, else \<open>balanced\<close>; activeness plays no part.
\<close>

theorem getDominantPattern_reduced_priority:
  "(let mlMax = Math_max4 (focus ml) (clear ml) (meditation ml) (dream ml)
    in getDominantPattern_reduced b ml =
         (if mlMax > 0.7 \<or> (meditation ml = mlMax \<and> mlMax > 0.6)
          then ''high_'' @ first_max_state ml
          else band_fallback b))
   \<and> band_fallback b =
       (if Math_max4 (alpha b) (beta b) (gamma b) (theta b) > 0.25
        then ''high_'' @ first_max_band b else ''balanced'')"
proof
  show "let mlMax = Math_max4 (focus ml) (clear ml) (meditation ml) (dream ml)
    in getDominantPattern_reduced b ml =
         (if mlMax > 0.7 \<or> (meditation ml = mlMax \<and> mlMax > 0.6)
          then ''high_'' @ first_max_state ml
          else band_fallback b)"
    unfolding getDominantPattern_reduced_def first_max_state_def Math_max4_def Let_def
    by (rule reduced_ml_cases)
next
  show "band_fallback b =
       (if Math_max4 (alpha b) (beta b) (gamma b) (theta b) > 0.25
        then ''high_'' @ first_max_band b else ''balanced'')"
    by (rule band_fallback_eq)
qed

text \<open>
  Claim C3 as stated fails: meditation 0.65 exceeds 0.6, but focus 0.68 is the largest
  score and does not exceed 0.7, so no ML label is returned.
\<close>

theorem getDominantPattern_reduced_counterexample:
  "meditation \<lparr>focus = 0.68, clear = 0, meditation = 0.65, dream = 0\<rparr> > 0.6
   \<and> getDominantPattern_reduced
       \<lparr>alpha = 0.2, beta = 0.2, gamma = 0.2, delta = 0.2, theta = 0.2\<rparr>
       \<lparr>focus = 0.68, clear = 0, meditation = 0.65, dream = 0\<rparr> = ''balanced''
   \<and> getDominantPattern_reduced
       \<lparr>alpha = 0.2, beta = 0.2, gamma = 0.2, delta = 0.2, theta = 0.2\<rparr>
       \<lparr>focus = 0.68, clear = 0, meditation = 0.65, dream = 0\<rparr> \<noteq> ''high_meditation''"
  by (simp add: getDominantPattern_reduced_def band_fallback_def reduced_waves_def
      Math_max4_def)

theorem getDominantPattern_reduced_priority_witness:
  "getDominantPattern_reduced
       \<lparr>alpha = 0.2, beta = 0.2, gamma = 0.2, delta = 0.2, theta = 0.2\<rparr>
       \<lparr>focus = 0.9, clear = 0.8, meditation = 0.65, dream = 0\<rparr> = ''high_focus''
   \<and> getDominantPattern_reduced
       \<lparr>alpha = 0.3, beta = 0.4, gamma = 0.1, delta = 0.1, theta = 0.1\<rparr>
       \<lparr>focus = 0.68, clear = 0, meditation = 0.65, dream = 0\<rparr> = ''high_beta''"
  using getDominantPattern_reduced_priority
          [of "\<lparr>focus = 0.9, clear = 0.8, meditation = 0.65, dream = 0\<rparr>"
              "\<lparr>alpha = 0.2, beta = 0.2, gamma = 0.2, delta = 0.2, theta = 0.2\<rparr>"]
        getDominantPattern_reduced_priority
          [of "\<lparr>focus = 0.68, clear = 0, meditation = 0.65, dream = 0\<rparr>"
              "\<lparr>alpha = 0.3, beta = 0.4, gamma = 0.1, delta = 0.1, theta = 0.1\<rparr>"]
  by (simp add: Math_max4_def first_max_state_def first_max_band_def)

subsection \<open>Dominant pattern, full page\<close>

lemma to_number_scaled:
  assumes lo: "2 ^ 52 \<le> x * 2 ^ n" and hi: "x * 2 ^ n < 2 ^ 53" and n: "n \<le> 1074"
  shows "to_number x = Fin (of_int (round_half_even (x * 2 ^ n)) / 2 ^ n)"
proof -
  define e :: int where "e = 52 - int n"
  have p: "(2::real) powr of_int (e - 52) = 1 / 2 ^ n"
    by (simp add: e_def powr_minus powr_realpow field_simps)
  have pos: "0 < x"
  proof (rule ccontr)
    assume "\<not> 0 < x"
    then have "x * 2 ^ n \<le> 0" by (simp add: mult_le_0_iff)
    moreover have "(0::real) < 2 ^ 52" by simp
    ultimately show False using lo by linarith
  qed
  have e0: "(2::real) powr of_int e = 2 ^ 52 / 2 ^ n"
    by (simp add: e_def powr_diff powr_realpow)
  have e1: "(2::real) powr of_int (e + 1) = 2 ^ 53 / 2 ^ n"
    by (simp add: e_def powr_diff powr_realpow powr_add field_simps)
  have a: "2 powr of_int e \<le> \<bar>x\<bar>"
    unfolding e0 using lo pos by (simp add: field_simps)
  have b: "\<bar>x\<bar> < 2 powr of_int (e + 1)"
    unfolding e1 using hi pos by (simp add: field_simps)
  have c: "- 1022 \<le> e" using n by (simp add: e_def)
  have f: "fl x = of_int (round_half_even (x * 2 ^ n)) / 2 ^ n"
    using fl_binade [OF a b c] unfolding p by simp
  have r0: "0 \<le> round_half_even (x * 2 ^ n)"
    using pos by (intro rhe_nonneg) simp
  have "round_half_even (x * 2 ^ n) \<le> \<lceil>x * 2 ^ n\<rceil>" using rhe_bounds by blast
  also have "\<dots> \<le> 2 ^ 53"
  proof -
    have "x * 2 ^ n \<le> of_int ((2::int) ^ 53)" using hi by simp
    then have "\<lceil>x * 2 ^ n\<rceil> \<le> (2::int) ^ 53" by (simp only: ceiling_le_iff)
    then show ?thesis by simp
  qed
  finally have "of_int (round_half_even (x * 2 ^ n)) \<le> (of_int ((2::int) ^ 53) :: real)"
    by (simp only: of_int_le_iff)
  then have r1: "(of_int (round_half_even (x * 2 ^ n)) :: real) \<le> 2 ^ 53" by simp
  have "(1::real) \<le> 2 ^ n" by simp
  then have "(of_int (round_half_even (x * 2 ^ n)) :: real) * 1
               \<le> of_int (round_half_even (x * 2 ^ n)) * 2 ^ n"
    using r0 by (intro mult_left_mono) simp_all
  then have "(of_int (round_half_even (x * 2 ^ n)) :: real) / 2 ^ n
               \<le> of_int (round_half_even (x * 2 ^ n))"
    by (simp add: field_simps)
  then have "\<bar>fl x\<bar> \<le> 2 ^ 53" unfolding f using r0 r1 by simp
  then have "\<bar>fl x\<bar> < overflow_threshold" using overflow_threshold_gt by linarith
  then show ?thesis unfolding f [symmetric] by (rule to_number_Fin)
qed

lemma to_number_eval:
  assumes k: "2 ^ 52 < k" "k < 2 ^ 53" and n: "n \<le> 1074"
    and x: "\<bar>x * 2 ^ n - of_int k\<bar> < 1 / 2"
  shows "to_number x = Fin (of_int k / 2 ^ n)"
proof -
  have k1: "(2::real) ^ 52 + 1 \<le> of_int k"
  proof -
    have "(2::int) ^ 52 + 1 \<le> k" using k(1) by simp
    then have "of_int ((2::int) ^ 52 + 1) \<le> (of_int k :: real)" by (simp only: of_int_le_iff)
    then show ?thesis by simp
  qed
  have k2: "(of_int k :: real) \<le> 2 ^ 53 - 1"
  proof -
    have "k \<le> (2::int) ^ 53 - 1" using k(2) by simp
    then have "(of_int k :: real) \<le> of_int ((2::int) ^ 53 - 1)" by (simp only: of_int_le_iff)
    then show ?thesis by simp
  qed
  have lo: "(2::real) ^ 52 \<le> x * 2 ^ n" and hi: "x * 2 ^ n < 2 ^ 53"
    using x k1 k2 by linarith+
  show ?thesis
    unfolding to_number_scaled [OF lo hi n] rhe_near [OF x] ..
qed

lemma to_number_sqrt_eval:
  assumes k: "2 ^ 52 < k" "k < 2 ^ 53" and n: "n \<le> 1074" and x: "0 \<le> x"
    and lo: "(of_int k - 1 / 2)\<^sup>2 < x * 4 ^ n" and hi: "x * 4 ^ n < (of_int k + 1 / 2)\<^sup>2"
  shows "to_number (sqrt x) = Fin (of_int k / 2 ^ n)"
proof -
  have "sqrt (x * 4 ^ n) = sqrt x * sqrt ((2 ^ n)\<^sup>2)"
    by (simp add: real_sqrt_mult power_mult_distrib [symmetric] power2_eq_square
        power_mult_distrib)
  then have s: "sqrt (x * 4 ^ n) = sqrt x * 2 ^ n" by simp
  have "of_int k - 1 / 2 < sqrt (x * 4 ^ n)" using lo by (rule real_less_rsqrt)
  moreover have "0 \<le> (of_int k :: real) + 1 / 2" using k(1) by simp
  then have "sqrt (x * 4 ^ n) < of_int k + 1 / 2" using hi by (intro real_less_lsqrt)
  ultimately have "\<bar>sqrt x * 2 ^ n - of_int k\<bar> < 1 / 2" unfolding s by linarith
  with k n show ?thesis by (rule to_number_eval)
qed

lemma num_gt_Fin: "num_gt (Fin a) (Fin b) = (b < a)"
  by (simp add: num_gt_def)

lemma dominant_cutoff_double: "dominant_cutoff = Fin double_0225"
  unfolding dominant_cutoff_def double_0225_def
  using to_number_eval [of 8106479329266893 55 "0.225"] by simp

lemma double_02251: "to_number 0.2251 = Fin double_02251"
  unfolding double_02251_def
  using to_number_eval [of 8110082208968789 55 "0.2251"] by simp

lemma weighting_power_half: "weighting_power = Fin (1 / 2)"
proof -
  have "fl (of_int 1 * 2 powr of_int (- 1)) = of_int 1 * 2 powr of_int (- 1)"
    by (rule fl_representable) simp_all
  then have "fl (1 / 2) = 1 / 2" by (simp add: powr_minus field_simps)
  then have "fl 0.5 = 1 / 2" by simp
  moreover have "\<bar>0.5 :: real\<bar> \<le> 2" by simp
  ultimately show ?thesis
    unfolding weighting_power_def using small_Fin [of "0.5"] by simp
qed

lemma num_less_trans: "num_less a b \<Longrightarrow> num_less b c \<Longrightarrow> num_less a c"
  by (cases a; cases b; cases c) simp_all

lemma num_less_irrefl: "\<not> num_less a a"
  by (cases a) simp_all

lemma num_less_asym: "num_less a b \<Longrightarrow> \<not> num_less b a"
  by (cases a; cases b) simp_all

lemma num_ge_cases: "num_ge m v \<Longrightarrow> v = m \<or> num_less v m"
  by (auto simp: num_ge_def strict_eq_def)

lemma cutoff_pos: "num_less (Fin 0) dominant_cutoff"
  by (simp add: dominant_cutoff_double double_0225_def)

lemma fold_dominant_unchanged:
  "list_all (\<lambda>(w, v). \<not> (num_gt v mv \<and> num_gt v dominant_cutoff)) ws
     \<Longrightarrow> fold dominant_step ws (mw, mv) = (mw, mv)"
  by (induction ws) auto

lemma fold_dominant_some:
  "\<exists>w' v'. fold dominant_step ws (Some w, mv) = (Some w', v') \<and> (w' = w \<or> w' \<in> fst ` set ws)"
proof (induction ws arbitrary: w mv)
  case Nil
  then show ?case by simp
next
  case (Cons p ws)
  obtain x y where p: "p = (x, y)" by (cases p)
  show ?case
  proof (cases "num_gt y mv \<and> num_gt y dominant_cutoff")
    case True
    from Cons.IH [of x y] obtain w' v'
      where "fold dominant_step ws (Some x, y) = (Some w', v')" "w' = x \<or> w' \<in> fst ` set ws"
      by blast
    then show ?thesis using True p by force
  next
    case False
    from Cons.IH [of w mv] obtain w' v'
      where "fold dominant_step ws (Some w, mv) = (Some w', v')" "w' = w \<or> w' \<in> fst ` set ws"
      by blast
    then show ?thesis using False p by force
  qed
qed

lemma fold_dominant_exceeds:
  assumes "list_ex (\<lambda>(w, v). num_gt v dominant_cutoff) ws"
  shows "\<exists>w' v'. fold dominant_step ws (None, Fin 0) = (Some w', v') \<and> w' \<in> fst ` set ws"
  using assms
proof (induction ws)
  case Nil
  then show ?case by simp
next
  case (Cons p ws)
  obtain x y where p: "p = (x, y)" by (cases p)
  show ?case
  proof (cases "num_gt y dominant_cutoff")
    case True
    then have "num_less (Fin 0) y"
      using cutoff_pos by (auto simp: num_gt_def intro: num_less_trans)
    then have s: "dominant_step p (None, Fin 0) = (Some x, y)"
      using True p by (simp add: num_gt_def)
    from fold_dominant_some [of ws x y] obtain w' v'
      where "fold dominant_step ws (Some x, y) = (Some w', v')" "w' = x \<or> w' \<in> fst ` set ws"
      by blast
    then show ?thesis using s p by force
  next
    case False
    then have s: "dominant_step p (None, Fin 0) = (None, Fin 0)" using p by simp
    from False Cons.prems p have "list_ex (\<lambda>(w, v). num_gt v dominant_cutoff) ws" by simp
    from Cons.IH [OF this] obtain w' v'
      where "fold dominant_step ws (None, Fin 0) = (Some w', v')" "w' \<in> fst ` set ws"
      by blast
    then show ?thesis using s by force
  qed
qed

lemma fold_dominant_max:
  assumes "list_ex (\<lambda>(w, v). v = m) ws" and "list_all (\<lambda>(w, v). num_ge m v) ws"
    and "num_gt m dominant_cutoff" and "num_less mv m"
  shows "\<exists>w. (w, m) \<in> set ws \<and> fold dominant_step ws (mw, mv) = (Some w, m)"
  using assms(1,2,4)
proof (induction ws arbitrary: mw mv)
  case Nil
  then show ?case by simp
next
  case (Cons p ws)
  obtain x y where p: "p = (x, y)" by (cases p)
  from Cons.prems(2) p have ge: "num_ge m y" and all: "list_all (\<lambda>(w, v). num_ge m v) ws"
    by simp_all
  show ?case
  proof (cases "y = m")
    case True
    then have s: "dominant_step p (mw, mv) = (Some x, m)"
      using p Cons.prems(3) assms(3) by (simp add: num_gt_def)
    have "list_all (\<lambda>(w, v). \<not> (num_gt v m \<and> num_gt v dominant_cutoff)) ws"
      using all
      by (auto simp: list_all_iff num_gt_def dest!: num_ge_cases
          dest: num_less_asym num_less_irrefl [THEN notE])
    then have "fold dominant_step ws (Some x, m) = (Some x, m)"
      by (rule fold_dominant_unchanged)
    then show ?thesis using s p True by auto
  next
    case False
    then have ym: "num_less y m" using ge by (auto dest: num_ge_cases)
    from False Cons.prems(1) p have ex: "list_ex (\<lambda>(w, v). v = m) ws" by simp
    show ?thesis
    proof (cases "num_gt y mv \<and> num_gt y dominant_cutoff")
      case True
      then have s: "dominant_step p (mw, mv) = (Some x, y)" using p by simp
      from Cons.IH [OF ex all ym, of "Some x"] obtain w
        where "(w, m) \<in> set ws" "fold dominant_step ws (Some x, y) = (Some w, m)" by blast
      then show ?thesis using s by auto
    next
      case no: False
      then have s: "dominant_step p (mw, mv) = (mw, mv)" unfolding p by auto
      from Cons.IH [OF ex all Cons.prems(3), of mw] obtain w
        where "(w, m) \<in> set ws" "fold dominant_step ws (mw, mv) = (Some w, m)" by blast
      then show ?thesis using s by auto
    qed
  qed
qed

lemma weighted_waves_names:
  "fst ` set (weighted_waves b) = {''alpha'', ''beta'', ''gamma'', ''theta'', ''delta''}"
  by (simp add: weighted_waves_def Let_def)

lemma label_not_balanced:
  assumes "w \<in> {''alpha'', ''beta'', ''gamma'', ''theta'', ''delta''}"
  shows "w @ ''_'' @ st \<noteq> ''balanced''" and "w @ ''_generic'' \<noteq> ''balanced''"
  using assms by auto

lemma getActivenessState_suffix:
  assumes "getActivenessState act = Some st"
  shows "st \<in> set activeness_suffixes"
proof (cases act)
  case None
  with assms show ?thesis by (simp add: getActivenessState_def)
next
  case (Some arr)
  obtain a c m where f: "fold activeness_step arr (0, 0, 0) = (a, c, m)"
    by (cases "fold activeness_step arr (0, 0, 0)")
  from assms Some f show ?thesis
    unfolding getActivenessState_def activeness_suffixes_def Let_def
    by (simp split: if_splits)
qed

lemma dominant_label:
  assumes "fold dominant_step (weighted_waves b) (None, Fin 0) = (Some w, v)"
  shows "\<exists>st. st \<in> set activeness_suffixes \<and> getDominantPattern b ml act = w @ ''_'' @ st"
proof (cases "getActivenessState act")
  case None
  then have "getDominantPattern b ml act = w @ ''_'' @ ''generic''"
    by (simp add: getDominantPattern_def assms)
  moreover have "''generic'' \<in> set activeness_suffixes" by (simp add: activeness_suffixes_def)
  ultimately show ?thesis by blast
next
  case (Some st)
  then have "getDominantPattern b ml act = w @ ''_'' @ st"
    by (simp add: getDominantPattern_def assms)
  moreover have "st \<in> set activeness_suffixes" using Some by (rule getActivenessState_suffix)
  ultimately show ?thesis by blast
qed

lemma balanced_iff:
  "(getDominantPattern b ml act = ''balanced'')
     = list_all (\<lambda>(w, v). \<not> num_gt v dominant_cutoff) (weighted_waves b)"
proof (cases "list_all (\<lambda>(w, v). \<not> num_gt v dominant_cutoff) (weighted_waves b)")
  case True
  then have "list_all (\<lambda>(w, v). \<not> (num_gt v (Fin 0) \<and> num_gt v dominant_cutoff))
               (weighted_waves b)"
    by (auto simp: list_all_iff)
  then have "fold dominant_step (weighted_waves b) (None, Fin 0) = (None, Fin 0)"
    by (rule fold_dominant_unchanged)
  then show ?thesis using True by (simp add: getDominantPattern_def)
next
  case False
  then have "list_ex (\<lambda>(w, v). num_gt v dominant_cutoff) (weighted_waves b)"
    by (auto simp: list_all_iff list_ex_iff)
  from fold_dominant_exceeds [OF this] obtain w v
    where f: "fold dominant_step (weighted_waves b) (None, Fin 0) = (Some w, v)"
      and w: "w \<in> fst ` set (weighted_waves b)" by blast
  from dominant_label [OF f, of ml act] obtain st
    where "getDominantPattern b ml act = w @ ''_'' @ st" by blast
  moreover have "w @ ''_'' @ st \<noteq> ''balanced''"
    using w unfolding weighted_waves_names by (rule label_not_balanced)
  ultimately show ?thesis using False by simp
qed

lemma dominant_max:
  assumes "is_max_weighted b m" and "num_gt m dominant_cutoff"
  shows "\<exists>w st. (w, m) \<in> set (weighted_waves b) \<and> st \<in> set activeness_suffixes
           \<and> getDominantPattern b ml act = w @ ''_'' @ st"
proof -
  have "num_less (Fin 0) m"
    using cutoff_pos assms(2) by (auto simp: num_gt_def intro: num_less_trans)
  with assms obtain w where w: "(w, m) \<in> set (weighted_waves b)"
    and f: "fold dominant_step (weighted_waves b) (None, Fin 0) = (Some w, m)"
    unfolding is_max_weighted_def using fold_dominant_max [of m "weighted_waves b" "Fin 0" None]
    by blast
  from dominant_label [OF f, of ml act] w show ?thesis by blast
qed

text \<open>
  Claim C6. The literals \<open>0.225\<close> and \<open>0.2251\<close> denote the doubles \<open>double_0225\<close> and
  \<open>double_02251\<close>. The full classifier returns \<open>balanced\<close> exactly when none of the five
  weighted proportions, as the source computes them, is greater than the double \<open>0.225\<close>.
  So when the largest proportion is exactly that double the result is \<open>balanced\<close>, and
  when it is the double \<open>0.2251\<close> the result is the label of a band that holds this
  proportion, followed by an activeness suffix.
\<close>

theorem dominant_cutoff_strict:
  "to_number 0.225 = Fin double_0225 \<and> to_number 0.2251 = Fin double_02251
   \<and> (getDominantPattern b ml act = ''balanced''
        \<longleftrightarrow> list_all (\<lambda>(w, v). \<not> num_gt v (Fin double_0225)) (weighted_waves b))
   \<and> (is_max_weighted b (Fin double_0225) \<longrightarrow> getDominantPattern b ml act = ''balanced'')
   \<and> (is_max_weighted b (Fin double_02251) \<longrightarrow>
        (\<exists>w st. (w, Fin double_02251) \<in> set (weighted_waves b) \<and> st \<in> set activeness_suffixes
           \<and> getDominantPattern b ml act = w @ ''_'' @ st))"
proof (intro conjI impI)
  show "to_number 0.225 = Fin double_0225"
    using dominant_cutoff_double by (simp add: dominant_cutoff_def)
  show "to_number 0.2251 = Fin double_02251" by (rule double_02251)
  show "(getDominantPattern b ml act = ''balanced'')
          = list_all (\<lambda>(w, v). \<not> num_gt v (Fin double_0225)) (weighted_waves b)"
    unfolding balanced_iff dominant_cutoff_double ..
next
  assume "is_max_weighted b (Fin double_0225)"
  then have "list_all (\<lambda>(w, v). num_ge dominant_cutoff v) (weighted_waves b)"
    by (simp add: is_max_weighted_def dominant_cutoff_double)
  then have "list_all (\<lambda>(w, v). \<not> num_gt v dominant_cutoff) (weighted_waves b)"
    by (auto simp: list_all_iff num_gt_def dest!: num_ge_cases
        dest: num_less_asym num_less_irrefl [THEN notE])
  then show "getDominantPattern b ml act = ''balanced''" by (simp only: balanced_iff)
next
  assume m: "is_max_weighted b (Fin double_02251)"
  have "num_gt (Fin double_02251) dominant_cutoff"
    by (simp add: dominant_cutoff_double num_gt_Fin double_0225_def double_02251_def)
  with m show "\<exists>w st. (w, Fin double_02251) \<in> set (weighted_waves b)
           \<and> st \<in> set activeness_suffixes
           \<and> getDominantPattern b ml act = w @ ''_'' @ st"
    by (rule dominant_max)
qed

lemma weight_alpha:
  "Math_pow (fdiv (fadd (Fin 8) (Fin 12)) (Fin 2)) weighting_power = Fin (7120816245988179 / 2251799813685248)"
proof -
  have "to_number (sqrt (10)) = Fin (of_int 7120816245988179 / 2 ^ 51)"
    by (rule to_number_sqrt_eval) (simp_all add: power_divide)
  then show ?thesis
    by (simp add: weighting_power_half powr_half_sqrt to_number_numeral)
qed

lemma weight_beta:
  "Math_pow (fdiv (fadd (Fin 12) (Fin 30)) (Fin 2)) weighting_power = Fin (5159521548050053 / 1125899906842624)"
proof -
  have "to_number (sqrt (21)) = Fin (of_int 5159521548050053 / 2 ^ 50)"
    by (rule to_number_sqrt_eval) (simp_all add: power_divide)
  then show ?thesis
    by (simp add: weighting_power_half powr_half_sqrt to_number_numeral)
qed

lemma weight_gamma:
  "Math_pow (Fin 30) weighting_power = Fin (6166807764706703 / 1125899906842624)"
proof -
  have "to_number (sqrt (30)) = Fin (of_int 6166807764706703 / 2 ^ 50)"
    by (rule to_number_sqrt_eval) (simp_all add: power_divide)
  then show ?thesis
    by (simp add: weighting_power_half powr_half_sqrt to_number_numeral)
qed

lemma weight_delta:
  "Math_pow (Fin 0.5) weighting_power = Fin (6369051672525773 / 9007199254740992)"
proof -
  have "to_number (sqrt (1 / 2)) = Fin (of_int 6369051672525773 / 2 ^ 53)"
    by (rule to_number_sqrt_eval) (simp_all add: power_divide)
  then show ?thesis
    by (simp add: weighting_power_half powr_half_sqrt to_number_numeral)
qed

lemma weight_theta:
  "Math_pow (fdiv (fadd (Fin 4) (Fin 8)) (Fin 2)) weighting_power = Fin (2757880273211543 / 1125899906842624)"
proof -
  have "to_number (sqrt (6)) = Fin (of_int 5515760546423086 / 2 ^ 51)"
    by (rule to_number_sqrt_eval) (simp_all add: power_divide)
  then show ?thesis
    by (simp add: weighting_power_half powr_half_sqrt to_number_numeral)
qed

lemma at_cutoff_weighted_alpha:
  "fmul (Fin (1283306672214721 / 18014398509481984)) (Fin (7120816245988179 / 2251799813685248)) = Fin (8116344041379275 / 36028797018963968)"
  using to_number_scaled [of "(1283306672214721 / 18014398509481984) * (7120816245988179 / 2251799813685248)" 55] by (simp add: round_half_even_def)

lemma at_cutoff_weighted_beta:
  "fmul (Fin (49 / 1024)) (Fin (5159521548050053 / 1125899906842624)) = Fin (1975129342612911 / 9007199254740992)"
  using to_number_scaled [of "(49 / 1024) * (5159521548050053 / 1125899906842624)" 55] by (simp add: round_half_even_def)

lemma at_cutoff_weighted_gamma:
  "fmul (Fin (19 / 512)) (Fin (6166807764706703 / 1125899906842624)) = Fin (3661542110294605 / 18014398509481984)"
  using to_number_scaled [of "(19 / 512) * (6166807764706703 / 1125899906842624)" 55] by (simp add: round_half_even_def)

lemma at_cutoff_weighted_delta:
  "fmul (Fin (2109748366524087 / 9007199254740992)) (Fin (6369051672525773 / 9007199254740992)) = Fin (5967269506265695 / 36028797018963968)"
  using to_number_scaled [of "(2109748366524087 / 9007199254740992) * (6369051672525773 / 9007199254740992)" 55] by (simp add: round_half_even_def)

lemma at_cutoff_weighted_theta:
  "fmul (Fin (157 / 2048)) (Fin (2757880273211543 / 1125899906842624)) = Fin (3382712522611033 / 18014398509481984)"
  using to_number_scaled [of "(157 / 2048) * (2757880273211543 / 1125899906842624)" 55] by (simp add: round_half_even_def)

lemma at_cutoff_sum1:
  "fadd (Fin (8116344041379275 / 36028797018963968)) (Fin (1975129342612911 / 9007199254740992)) = Fin (2002107676478865 / 4503599627370496)"
  using to_number_scaled [of "(8116344041379275 / 36028797018963968) + (1975129342612911 / 9007199254740992)" 54] by (simp add: round_half_even_def)

lemma at_cutoff_sum2:
  "fadd (Fin (2002107676478865 / 4503599627370496)) (Fin (3661542110294605 / 18014398509481984)) = Fin (729373301013129 / 1125899906842624)"
  using to_number_scaled [of "(2002107676478865 / 4503599627370496) + (3661542110294605 / 18014398509481984)" 53] by (simp add: round_half_even_def)

lemma at_cutoff_sum3:
  "fadd (Fin (729373301013129 / 1125899906842624)) (Fin (5967269506265695 / 36028797018963968)) = Fin (228962618270983 / 281474976710656)"
  using to_number_scaled [of "(729373301013129 / 1125899906842624) + (5967269506265695 / 36028797018963968)" 53] by (simp add: round_half_even_def)

lemma at_cutoff_sum4:
  "fadd (Fin (228962618270983 / 281474976710656)) (Fin (3382712522611033 / 18014398509481984)) = Fin (2254540011494243 / 2251799813685248)"
  using to_number_scaled [of "(228962618270983 / 281474976710656) + (3382712522611033 / 18014398509481984)" 52] by (simp add: round_half_even_def)

lemma at_cutoff_proportion_alpha:
  "fdiv (Fin (8116344041379275 / 36028797018963968)) (Fin (2254540011494243 / 2251799813685248)) = Fin (8106479329266893 / 36028797018963968)"
  using to_number_scaled [of "(8116344041379275 / 36028797018963968) / (2254540011494243 / 2251799813685248)" 55] by (simp add: round_half_even_def)

lemma at_cutoff_proportion_beta:
  "fdiv (Fin (1975129342612911 / 9007199254740992)) (Fin (2254540011494243 / 2251799813685248)) = Fin (7890914976935421 / 36028797018963968)"
  using to_number_scaled [of "(1975129342612911 / 9007199254740992) / (2254540011494243 / 2251799813685248)" 55] by (simp add: round_half_even_def)

lemma at_cutoff_proportion_gamma:
  "fdiv (Fin (3661542110294605 / 18014398509481984)) (Fin (2254540011494243 / 2251799813685248)) = Fin (3657091823487975 / 18014398509481984)"
  using to_number_scaled [of "(3661542110294605 / 18014398509481984) / (2254540011494243 / 2251799813685248)" 55] by (simp add: round_half_even_def)

lemma at_cutoff_proportion_theta:
  "fdiv (Fin (3382712522611033 / 18014398509481984)) (Fin (2254540011494243 / 2251799813685248)) = Fin (6757202257961107 / 36028797018963968)"
  using to_number_scaled [of "(3382712522611033 / 18014398509481984) / (2254540011494243 / 2251799813685248)" 55] by (simp add: round_half_even_def)

lemma at_cutoff_proportion_delta:
  "fdiv (Fin (5967269506265695 / 36028797018963968)) (Fin (2254540011494243 / 2251799813685248)) = Fin (5960016807824599 / 36028797018963968)"
  using to_number_scaled [of "(5967269506265695 / 36028797018963968) / (2254540011494243 / 2251799813685248)" 55] by (simp add: round_half_even_def)

lemma weighted_at_cutoff:
  "weighted_waves bands_at_cutoff =
     [(''alpha'', Fin (8106479329266893 / 36028797018963968)),
      (''beta'', Fin (7890914976935421 / 36028797018963968)),
      (''gamma'', Fin (3657091823487975 / 18014398509481984)),
      (''theta'', Fin (6757202257961107 / 36028797018963968)),
      (''delta'', Fin (5960016807824599 / 36028797018963968))]"
  by (simp only: weighted_waves_def Let_def bands_at_cutoff_def brainwaves.select_convs
      weight_alpha weight_beta weight_gamma weight_delta weight_theta
      at_cutoff_weighted_alpha at_cutoff_weighted_beta at_cutoff_weighted_gamma
      at_cutoff_weighted_delta at_cutoff_weighted_theta at_cutoff_sum1
      at_cutoff_sum2 at_cutoff_sum3 at_cutoff_sum4
      at_cutoff_proportion_alpha at_cutoff_proportion_beta at_cutoff_proportion_gamma
      at_cutoff_proportion_theta at_cutoff_proportion_delta)

lemma above_cutoff_weighted_alpha:
  "fmul (Fin (283 / 4096)) (Fin (7120816245988179 / 2251799813685248)) = Fin (7871839834432245 / 36028797018963968)"
  using to_number_scaled [of "(283 / 4096) * (7120816245988179 / 2251799813685248)" 55] by (simp add: round_half_even_def)

lemma above_cutoff_weighted_beta:
  "fmul (Fin (7080404215844671 / 144115188075855872)) (Fin (5159521548050053 / 1125899906842624)) = Fin (8111622067498163 / 36028797018963968)"
  using to_number_scaled [of "(7080404215844671 / 144115188075855872) * (5159521548050053 / 1125899906842624)" 55] by (simp add: round_half_even_def)

lemma above_cutoff_weighted_gamma:
  "fmul (Fin (19 / 512)) (Fin (6166807764706703 / 1125899906842624)) = Fin (3661542110294605 / 18014398509481984)"
  using to_number_scaled [of "(19 / 512) * (6166807764706703 / 1125899906842624)" 55] by (simp add: round_half_even_def)

lemma above_cutoff_weighted_delta:
  "fmul (Fin (1054237278094791 / 4503599627370496)) (Fin (6369051672525773 / 9007199254740992)) = Fin (5963666626563799 / 36028797018963968)"
  using to_number_scaled [of "(1054237278094791 / 4503599627370496) * (6369051672525773 / 9007199254740992)" 55] by (simp add: round_half_even_def)

lemma above_cutoff_weighted_theta:
  "fmul (Fin (157 / 2048)) (Fin (2757880273211543 / 1125899906842624)) = Fin (3382712522611033 / 18014398509481984)"
  using to_number_scaled [of "(157 / 2048) * (2757880273211543 / 1125899906842624)" 55] by (simp add: round_half_even_def)

lemma above_cutoff_sum1:
  "fadd (Fin (7871839834432245 / 36028797018963968)) (Fin (8111622067498163 / 36028797018963968)) = Fin (1997932737741301 / 4503599627370496)"
  using to_number_scaled [of "(7871839834432245 / 36028797018963968) + (8111622067498163 / 36028797018963968)" 54] by (simp add: round_half_even_def)

lemma above_cutoff_sum2:
  "fadd (Fin (1997932737741301 / 4503599627370496)) (Fin (3661542110294605 / 18014398509481984)) = Fin (364164783164369 / 562949953421312)"
  using to_number_scaled [of "(1997932737741301 / 4503599627370496) + (3661542110294605 / 18014398509481984)" 53] by (simp add: round_half_even_def)

lemma above_cutoff_sum3:
  "fadd (Fin (364164783164369 / 562949953421312)) (Fin (5963666626563799 / 36028797018963968)) = Fin (3658776593635427 / 4503599627370496)"
  using to_number_scaled [of "(364164783164369 / 562949953421312) + (5963666626563799 / 36028797018963968)" 53] by (simp add: round_half_even_def)

lemma above_cutoff_sum4:
  "fadd (Fin (3658776593635427 / 4503599627370496)) (Fin (3382712522611033 / 18014398509481984)) = Fin (4504454724288185 / 4503599627370496)"
  using to_number_scaled [of "(3658776593635427 / 4503599627370496) + (3382712522611033 / 18014398509481984)" 52] by (simp add: round_half_even_def)

lemma above_cutoff_proportion_alpha:
  "fdiv (Fin (7871839834432245 / 36028797018963968)) (Fin (4504454724288185 / 4503599627370496)) = Fin (7870345494630655 / 36028797018963968)"
  using to_number_scaled [of "(7871839834432245 / 36028797018963968) / (4504454724288185 / 4503599627370496)" 55] by (simp add: round_half_even_def)

lemma above_cutoff_proportion_beta:
  "fdiv (Fin (8111622067498163 / 36028797018963968)) (Fin (4504454724288185 / 4503599627370496)) = Fin (8110082208968789 / 36028797018963968)"
  using to_number_scaled [of "(8111622067498163 / 36028797018963968) / (4504454724288185 / 4503599627370496)" 55] by (simp add: round_half_even_def)

lemma above_cutoff_proportion_gamma:
  "fdiv (Fin (3661542110294605 / 18014398509481984)) (Fin (4504454724288185 / 4503599627370496)) = Fin (7321694053048789 / 36028797018963968)"
  using to_number_scaled [of "(3661542110294605 / 18014398509481984) / (4504454724288185 / 4503599627370496)" 55] by (simp add: round_half_even_def)

lemma above_cutoff_proportion_theta:
  "fdiv (Fin (3382712522611033 / 18014398509481984)) (Fin (4504454724288185 / 4503599627370496)) = Fin (845517592517259 / 4503599627370496)"
  using to_number_scaled [of "(3382712522611033 / 18014398509481984) / (4504454724288185 / 4503599627370496)" 55] by (simp add: round_half_even_def)

lemma above_cutoff_proportion_delta:
  "fdiv (Fin (5963666626563799 / 36028797018963968)) (Fin (4504454724288185 / 4503599627370496)) = Fin (5962534522177667 / 36028797018963968)"
  using to_number_scaled [of "(5963666626563799 / 36028797018963968) / (4504454724288185 / 4503599627370496)" 55] by (simp add: round_half_even_def)

lemma weighted_above_cutoff:
  "weighted_waves bands_above_cutoff =
     [(''alpha'', Fin (7870345494630655 / 36028797018963968)),
      (''beta'', Fin (8110082208968789 / 36028797018963968)),
      (''gamma'', Fin (7321694053048789 / 36028797018963968)),
      (''theta'', Fin (845517592517259 / 4503599627370496)),
      (''delta'', Fin (5962534522177667 / 36028797018963968))]"
  by (simp only: weighted_waves_def Let_def bands_above_cutoff_def brainwaves.select_convs
      weight_alpha weight_beta weight_gamma weight_delta weight_theta
      above_cutoff_weighted_alpha above_cutoff_weighted_beta above_cutoff_weighted_gamma
      above_cutoff_weighted_delta above_cutoff_weighted_theta above_cutoff_sum1
      above_cutoff_sum2 above_cutoff_sum3 above_cutoff_sum4
      above_cutoff_proportion_alpha above_cutoff_proportion_beta above_cutoff_proportion_gamma
      above_cutoff_proportion_theta above_cutoff_proportion_delta)

theorem dominant_cutoff_strict_witness:
  "is_max_weighted bands_at_cutoff (Fin double_0225)
   \<and> getDominantPattern bands_at_cutoff
         \<lparr>focus = 0.5, clear = 0.5, meditation = 0.5, dream = 0.5\<rparr> (Some [1, 0.75]) = ''balanced''
   \<and> is_max_weighted bands_above_cutoff (Fin double_02251)
   \<and> (\<exists>w st. (w, Fin double_02251) \<in> set (weighted_waves bands_above_cutoff)
         \<and> st \<in> set activeness_suffixes
         \<and> getDominantPattern bands_above_cutoff
              \<lparr>focus = 0.5, clear = 0.5, meditation = 0.5, dream = 0.5\<rparr> (Some [1, 0.75])
             = w @ ''_'' @ st)"
proof -
  have a: "is_max_weighted bands_at_cutoff (Fin double_0225)"
    by (simp add: is_max_weighted_def weighted_at_cutoff num_ge_Fin double_0225_def)
  have b: "is_max_weighted bands_above_cutoff (Fin double_02251)"
    by (simp add: is_max_weighted_def weighted_above_cutoff num_ge_Fin double_02251_def)
  show ?thesis
    using a b
      dominant_cutoff_strict [of bands_at_cutoff
         "\<lparr>focus = 0.5, clear = 0.5, meditation = 0.5, dream = 0.5\<rparr>" "Some [1, 0.75]"]
      dominant_cutoff_strict [of bands_above_cutoff
         "\<lparr>focus = 0.5, clear = 0.5, meditation = 0.5, dream = 0.5\<rparr>" "Some [1, 0.75]"]
    by blast
qed

lemma above_cutoff_label:
  "getDominantPattern bands_above_cutoff
     \<lparr>focus = 0.5, clear = 0.5, meditation = 0.5, dream = 0.5\<rparr> None = ''beta_generic''"
  by (simp add: getDominantPattern_def weighted_above_cutoff dominant_cutoff_double num_gt_Fin
      double_0225_def getActivenessState_def)

subsection \<open>Tail deduplicator\<close>

lemma minLength_equal:
  "equal_length_arrays d n \<Longrightarrow>
     minLength_loop d m = Some (if d = [] then m else min m (enat n))"
proof (induction d m rule: minLength_loop.induct)
  case (1 minLength)
  then show ?case by simp
next
  case (2 key rest minLength)
  then show ?case by (simp add: equal_length_arrays_def)
next
  case (3 key a rest minLength)
  then have n: "length a = n" and r: "equal_length_arrays rest n"
    by (simp_all add: equal_length_arrays_def)
  show ?case using "3.IH" [OF r] n by (simp add: min.assoc)
qed

lemma tail_loop_acc: "tail_loop d i c = c + tail_loop d i 0"
proof (induction i arbitrary: c)
  case 0
  then show ?case by simp
next
  case (Suc j)
  show ?case using Suc [of "c + 1"] Suc [of 1] by simp
qed

lemma tail_loop_le: "tail_loop d i 0 \<le> i"
proof (induction i)
  case 0
  then show ?case by simp
next
  case (Suc j)
  then show ?case using tail_loop_acc [of d j 1] by simp
qed

lemma tail_loop_stop:
  "tail_loop d i 0 < i \<Longrightarrow> \<not> allRepeated d (i - tail_loop d i 0)"
proof (induction i)
  case 0
  then show ?case by simp
next
  case (Suc j)
  show ?case
  proof (cases "allRepeated d (Suc j)")
    case True
    then have e: "tail_loop d (Suc j) 0 = Suc (tail_loop d j 0)"
      using tail_loop_acc [of d j 1] by simp
    with Suc.prems have "tail_loop d j 0 < j" by simp
    from Suc.IH [OF this] show ?thesis unfolding e by simp
  next
    case False
    then show ?thesis by simp
  qed
qed

lemma equal_length_slice:
  "equal_length_arrays d n \<Longrightarrow>
     equal_length_arrays (map (\<lambda>(key, v). (key, slice_tail k v)) d) (n - k)"
  by (induction d) (auto simp: equal_length_arrays_def slice_tail_def split: jsval.splits)

lemma allRepeated_slice:
  "equal_length_arrays d n \<Longrightarrow> i < n - k \<Longrightarrow>
     allRepeated (map (\<lambda>(key, v). (key, slice_tail k v)) d) i = allRepeated d i"
  by (induction d) (auto simp: equal_length_arrays_def allRepeated_def slice_tail_def
      split: jsval.splits)

lemma removeRepeatedTail_fixed:
  assumes e: "equal_length_arrays d n"
    and s: "n \<le> 1 \<or> \<not> allRepeated d (n - 1)"
  shows "removeRepeatedTail (Some d) = Some d"
proof (cases "d = [] \<or> n \<le> 1")
  case True
  then show ?thesis
    using minLength_equal [OF e, of \<infinity>]
    by (auto simp: removeRepeatedTail_def one_enat_def)
next
  case False
  then have n: "1 < n" and ne: "d \<noteq> []" by simp_all
  from n obtain j where j: "n - 1 = Suc j" by (cases "n - 1") simp_all
  from s n have "\<not> allRepeated d (n - 1)" by simp
  then have "tail_loop d (n - 1) 0 = 0" unfolding j by simp
  then show ?thesis
    using minLength_equal [OF e, of \<infinity>] ne n
    by (simp add: removeRepeatedTail_def one_enat_def)
qed

text \<open>
  Claim C5. On a map whose values are numeric arrays of one common length,
  \<open>removeRepeatedTail\<close> applied twice gives what one application gives.
\<close>

theorem removeRepeatedTail_idempotent:
  assumes e: "equal_length_arrays d n"
  shows "removeRepeatedTail (removeRepeatedTail (Some d)) = removeRepeatedTail (Some d)"
proof -
  let ?k = "tail_loop d (n - 1) 0"
  let ?d' = "map (\<lambda>(key, v). (key, slice_tail ?k v)) d"
  show ?thesis
  proof (cases "d \<noteq> [] \<and> 1 < n \<and> 0 < ?k")
    case False
    then have "removeRepeatedTail (Some d) = Some d"
      using minLength_equal [OF e, of \<infinity>]
      by (auto simp: removeRepeatedTail_def one_enat_def)
    then show ?thesis by simp
  next
    case True
    then have r: "removeRepeatedTail (Some d) = Some ?d'"
      using minLength_equal [OF e, of \<infinity>]
      by (simp add: removeRepeatedTail_def one_enat_def Let_def)
    have e': "equal_length_arrays ?d' (n - ?k)" by (rule equal_length_slice [OF e])
    have "n - ?k \<le> 1 \<or> \<not> allRepeated ?d' (n - ?k - 1)"
    proof (cases "n - ?k \<le> 1")
      case True
      then show ?thesis by simp
    next
      case False
      then have lt: "?k < n - 1" by simp
      from tail_loop_stop [OF lt] have "\<not> allRepeated d (n - 1 - ?k)" .
      moreover have "n - 1 - ?k = n - ?k - 1" by simp
      moreover have "n - ?k - 1 < n - ?k" using False by simp
      ultimately show ?thesis using allRepeated_slice [OF e, of "n - ?k - 1" ?k] by simp
    qed
    from removeRepeatedTail_fixed [OF e' this] show ?thesis by (simp add: r)
  qed
qed

theorem removeRepeatedTail_idempotent_witness:
  "equal_length_arrays [(''a'', Arr [1, 2, 3, 3, 3]), (''b'', Arr [5, 6, 7, 7, 7])] 5
   \<and> removeRepeatedTail (Some [(''a'', Arr [1, 2, 3, 3, 3]), (''b'', Arr [5, 6, 7, 7, 7])])
       = Some [(''a'', Arr [1, 2, 3]), (''b'', Arr [5, 6, 7])]
   \<and> removeRepeatedTail (Some [(''a'', Arr [1, 2, 3]), (''b'', Arr [5, 6, 7])])
       = Some [(''a'', Arr [1, 2, 3]), (''b'', Arr [5, 6, 7])]"
proof -
  have h: "equal_length_arrays [(''a'', Arr [1, 2, 3, 3, 3]), (''b'', Arr [5, 6, 7, 7, 7])] 5"
    by (simp add: equal_length_arrays_def)
  have v: "removeRepeatedTail (Some [(''a'', Arr [1, 2, 3, 3, 3]), (''b'', Arr [5, 6, 7, 7, 7])])
       = Some [(''a'', Arr [1, 2, 3]), (''b'', Arr [5, 6, 7])]"
    by (simp add: removeRepeatedTail_def allRepeated_def slice_tail_def one_enat_def
        numeral_eq_enat eval_nat_numeral)
  show ?thesis using h v removeRepeatedTail_idempotent [OF h] by simp
qed

subsection \<open>Waveform synthesizer\<close>

lemma wave_points_shape:
  assumes "map_of brainwaveSpecs ty = Some spec" and "2 \<le> height"
  shows "map fst (generateFrequencyWeightedWave ty amp width height) = [0..<width]
         \<and> (\<forall>p \<in> set (generateFrequencyWeightedWave ty amp width height).
               1 \<le> snd p \<and> snd p \<le> height - 1)"
  unfolding generateFrequencyWeightedWave_def Let_def assms(1) option.case
  using assms(2) by (auto simp: comp_def simp del: length_map length_upt)

text \<open>
  Claim C9. For band \<open>gamma\<close>, amplitude 1, width 80 and height 60 the synthesizer
  produces 80 points, their \<open>x\<close> coordinates are 0, 1, ..., 79 in this order (strictly
  increasing), and every \<open>y\<close> lies in \<open>[1, 59]\<close>.
\<close>

theorem gamma_wave_points:
  "length (generateFrequencyWeightedWave ''gamma'' 1 80 60) = 80
   \<and> map fst (generateFrequencyWeightedWave ''gamma'' 1 80 60) = [0..<80]
   \<and> sorted_wrt (<) (map fst (generateFrequencyWeightedWave ''gamma'' 1 80 60))
   \<and> (\<forall>i < 80. 1 \<le> snd (generateFrequencyWeightedWave ''gamma'' 1 80 60 ! i)
                \<and> snd (generateFrequencyWeightedWave ''gamma'' 1 80 60 ! i) \<le> 59)"
proof -
  let ?pts = "generateFrequencyWeightedWave ''gamma'' 1 80 60"
  have s: "map_of brainwaveSpecs ''gamma''
             = Some \<lparr>minHz = 30, maxHz = 100, centerHz = 65, numWaves = 2\<rparr>"
    by (simp add: brainwaveSpecs_def)
  from wave_points_shape [OF s, of 60 1 80]
  have m: "map fst ?pts = [0..<80]"
    and y: "\<forall>p \<in> set ?pts. 1 \<le> snd p \<and> snd p \<le> 60 - 1" by simp_all
  have l: "length ?pts = 80" using arg_cong [OF m, of length] by simp
  have so: "sorted_wrt (<) (map fst ?pts)" unfolding m by (rule sorted_wrt_upt)
  have "\<forall>i < 80. 1 \<le> snd (?pts ! i) \<and> snd (?pts ! i) \<le> 59"
  proof (intro allI impI)
    fix i :: nat assume "i < 80"
    then have "?pts ! i \<in> set ?pts" using l by simp
    with y show "1 \<le> snd (?pts ! i) \<and> snd (?pts ! i) \<le> 59" by fastforce
  qed
  with l m so show ?thesis by blast
qed

theorem gamma_wave_points_witness:
  "fst (generateFrequencyWeightedWave ''gamma'' 1 80 60 ! 79) = 79
   \<and> 1 \<le> snd (generateFrequencyWeightedWave ''gamma'' 1 80 60 ! 79)
   \<and> snd (generateFrequencyWeightedWave ''gamma'' 1 80 60 ! 79) \<le> 59"
proof -
  let ?pts = "generateFrequencyWeightedWave ''gamma'' 1 80 60"
  have l: "length ?pts = 80" and m: "map fst ?pts = [0..<80]"
    and y: "\<forall>i < 80. 1 \<le> snd (?pts ! i) \<and> snd (?pts ! i) \<le> 59"
    using gamma_wave_points by blast+
  have "fst (?pts ! 79) = map fst ?pts ! 79"
    by (rule nth_map [symmetric]) (simp add: l)
  also have "\<dots> = 79" unfolding m by simp
  finally have x: "fst (?pts ! 79) = 79" .
  have "(79::nat) < 80" by simp
  with y have "1 \<le> snd (?pts ! 79) \<and> snd (?pts ! 79) \<le> 59" by blast
  with x show ?thesis by blast
qed

subsection \<open>Fortune selector\<close>

lemma fortunes_lengths: "list_all (\<lambda>(k, l). length l = 6) fortunes"
  by (simp add: fortunes_def)

lemma fortunes_own_length: "map_of fortunes category = Some l \<Longrightarrow> length l = 6"
proof -
  assume "map_of fortunes category = Some l"
  then have "(category, l) \<in> set fortunes" by (rule map_of_SomeD)
  with fortunes_lengths show ?thesis by (auto simp: list_all_iff)
qed

lemma fortunes_balanced: "map_of fortunes ''balanced'' = Some balanced_fortunes"
  by (simp add: fortunes_def balanced_fortunes_def)

lemma label_fortunes_length: "length (label_fortunes category) = 6"
  by (cases "map_of fortunes category")
     (simp_all add: label_fortunes_def fortunes_own_length balanced_fortunes_def)

lemma to_number_nonneg: "0 \<le> x \<Longrightarrow> nonneg_number (to_number x)"
proof -
  assume "0 \<le> x"
  then have f: "0 \<le> fl x" by (rule fl_nonneg)
  have "0 < overflow_threshold" using overflow_threshold_gt by (smt (verit) zero_less_power)
  with f show ?thesis by (simp add: to_number_def Let_def nonneg_number_def)
qed

lemma fmul_nonneg: "0 \<le> x \<Longrightarrow> 0 \<le> y \<Longrightarrow> nonneg_number (fmul (Fin x) (Fin y))"
  by (simp add: to_number_nonneg)

lemma fadd_nonneg: "nonneg_number a \<Longrightarrow> nonneg_number b \<Longrightarrow> nonneg_number (fadd a b)"
  by (cases a; cases b) (simp_all add: nonneg_number_def to_number_nonneg [unfolded nonneg_number_def])

lemma seed_sum_nonneg:
  assumes "0 \<le> alpha b" "0 \<le> beta b" "0 \<le> gamma b" "0 \<le> delta b" "0 \<le> theta b"
    and "0 \<le> meditation ml"
  shows "nonneg_number (seed_sum b ml)"
  unfolding seed_sum_def using assms by (intro fadd_nonneg fmul_nonneg) simp_all

lemma remainder_index:
  assumes "0 \<le> k" and "xs \<noteq> []"
  shows "array_get xs (js_remainder (Fin (of_int k)) (length xs))
           = Some (xs ! (nat k mod length xs))"
proof -
  define n where "n = length xs"
  have n: "0 < n" using assms(2) by (simp add: n_def)
  have q: "0 \<le> (of_int k :: real) / real n" using assms(1) by simp
  have "\<lfloor>(of_int k :: real) / real n\<rfloor> = k div int n"
    by (metis floor_divide_of_int_eq of_int_of_nat_eq)
  then have t: "truncate_real (of_int k / real n) = k div int n"
    using q by (simp add: truncate_real_def)
  have "(of_int k :: real) - real n * of_int (k div int n) = of_int (k mod int n)"
    by (simp add: minus_div_mult_eq_mod [symmetric] mult.commute)
  then have r: "js_remainder (Fin (of_int k)) n = Fin (of_int (k mod int n))"
    using n by (simp add: js_remainder_def t)
  have m0: "0 \<le> k mod int n" and m1: "k mod int n < int n" using n by simp_all
  have "nat (k mod int n) = nat k mod n" using assms(1) by (simp add: nat_mod_distrib)
  moreover have "(of_int (k mod int n) :: real) < real n"
    using m1 by (metis of_int_less_iff of_int_of_nat_eq)
  ultimately have "array_get xs (Fin (of_int (k mod int n))) = Some (xs ! (nat k mod n))"
    using m0 by (simp add: array_get_def n_def)
  then show ?thesis using r by (simp add: n_def)
qed

lemma fortune_seed_nonneg:
  assumes "0 \<le> alpha b" "0 \<le> beta b" "0 \<le> gamma b" "0 \<le> delta b" "0 \<le> theta b"
    and "0 \<le> meditation ml" and "seed_sum b ml = Fin t"
  shows "0 \<le> \<lfloor>t + 1 / 2\<rfloor>"
proof -
  have "nonneg_number (seed_sum b ml)" using assms(1-6) by (rule seed_sum_nonneg)
  then have "0 \<le> t" by (simp add: assms(7) nonneg_number_def)
  then show ?thesis by simp
qed

text \<open>
  Claim C8, amended. For a label that is not a name inherited from \<open>Object.prototype\<close>
  and a seed that is finite and not negative, \<open>getRandomFortune\<close> returns the entry at
  index \<open>seed mod (list length)\<close> of the label's list, or of the list of \<open>balanced\<close> when
  the label is no key of the table; \<open>seed\<close> is \<open>Math.round\<close> of the sum
  \<open>1000*alpha + 2000*beta + 3000*gamma + 4000*delta + 5000*theta + 8000*meditation\<close>
  as the source computes it. The result is given as a function of the label and the two
  records. By \<open>fortune_seed_nonneg\<close> the seed is not negative when no band value and
  no meditation score is.
\<close>

theorem getRandomFortune_index:
  assumes "category \<notin> set Object_prototype_keys"
    and "seed_sum b ml = Fin t"
    and "0 \<le> \<lfloor>t + 1 / 2\<rfloor>"
  shows "getRandomFortune category b ml =
           Some (label_fortunes category
                   ! (nat \<lfloor>t + 1 / 2\<rfloor> mod length (label_fortunes category)))
         \<and> (map_of fortunes category = None \<longrightarrow> label_fortunes category = balanced_fortunes)
         \<and> fortune_seed b ml = Fin (of_int \<lfloor>t + 1 / 2\<rfloor>)"
proof (intro conjI)
  note k = assms(3)
  show s: "fortune_seed b ml = Fin (of_int \<lfloor>t + 1 / 2\<rfloor>)"
    by (simp add: fortune_seed_def Math_round_def assms(2))
  have ne: "label_fortunes category \<noteq> []"
    using label_fortunes_length [of category] by auto
  have "getRandomFortune category b ml =
          array_get (label_fortunes category)
            (js_remainder (fortune_seed b ml) (length (label_fortunes category)))"
    using assms(1)
    by (cases "map_of fortunes category")
       (simp_all add: getRandomFortune_def fortunes_get_def label_fortunes_def fortunes_balanced)
  then show "getRandomFortune category b ml =
           Some (label_fortunes category
                   ! (nat \<lfloor>t + 1 / 2\<rfloor> mod length (label_fortunes category)))"
    unfolding s by (simp only: remainder_index [OF k ne])
next
  show "map_of fortunes category = None \<longrightarrow> label_fortunes category = balanced_fortunes"
    by (simp add: label_fortunes_def)
qed

lemma seed_overflow:
  "fmul (Fin (overflow_threshold / 2)) (Fin 1000) = PInf"
proof -
  have "overflow_threshold / 2 * 1000 = of_int 500 * 2 ^ 1024"
    unfolding overflow_threshold_def by (simp only: of_int_numeral)
  moreover have "fl (of_int 500 * 2 ^ 1024) = of_int 500 * 2 ^ 1024"
    by (rule fl_scale) simp
  ultimately have "fl (overflow_threshold / 2 * 1000) = 500 * overflow_threshold"
    unfolding overflow_threshold_def by (simp only: of_int_numeral)
  moreover have "0 < overflow_threshold"
    using overflow_threshold_gt by (smt (verit) zero_less_power)
  ultimately have "overflow_threshold \<le> fl (overflow_threshold / 2 * 1000)" by simp
  then show ?thesis by (simp only: fmul.simps to_number_overflow)
qed

lemma seed_sum_example:
  "seed_sum \<lparr>alpha = 1 / 2, beta = 1 / 4, gamma = 1 / 8, delta = 1 / 8, theta = 0\<rparr>
            \<lparr>focus = 0, clear = 0, meditation = 1 / 2, dream = 0\<rparr> = Fin 5875"
  by (simp add: seed_sum_def to_number_numeral to_number_zero)

theorem getRandomFortune_index_witness:
  "getRandomFortune ''theta_clear''
     \<lparr>alpha = 1 / 2, beta = 1 / 4, gamma = 1 / 8, delta = 1 / 8, theta = 0\<rparr>
     \<lparr>focus = 0, clear = 0, meditation = 1 / 2, dream = 0\<rparr>
     = Some (label_fortunes ''theta_clear'' ! 1)
   \<and> getRandomFortune ''theta_unknown''
     \<lparr>alpha = 1 / 2, beta = 1 / 4, gamma = 1 / 8, delta = 1 / 8, theta = 0\<rparr>
     \<lparr>focus = 0, clear = 0, meditation = 1 / 2, dream = 0\<rparr>
     = Some (balanced_fortunes ! 1)
   \<and> fortune_seed
     \<lparr>alpha = 1 / 2, beta = 1 / 4, gamma = 1 / 8, delta = 1 / 8, theta = 0\<rparr>
     \<lparr>focus = 0, clear = 0, meditation = 1 / 2, dream = 0\<rparr> = Fin 5875"
proof -
  have k: "nat \<lfloor>5875 + 1 / 2 :: real\<rfloor> mod 6 = 1" by simp
  have u: "map_of fortunes ''theta_unknown'' = None" by (simp add: fortunes_def)
  have p: "''theta_clear'' \<notin> set Object_prototype_keys"
    "''theta_unknown'' \<notin> set Object_prototype_keys"
    by (simp_all add: Object_prototype_keys_def)
  have f: "0 \<le> \<lfloor>5875 + 1 / 2 :: real\<rfloor>"
    by (rule fortune_seed_nonneg [OF _ _ _ _ _ _ seed_sum_example]) simp_all
  note a = getRandomFortune_index [OF _ seed_sum_example f]
  have l: "label_fortunes ''theta_unknown'' = balanced_fortunes"
    using u by (simp add: label_fortunes_def)
  from a [OF p(1)] a [OF p(2)] show ?thesis
    unfolding label_fortunes_length k unfolding l by simp
qed

text \<open>
  Claim C8 as worded fails for three inputs. The label \<open>constructor\<close> is no key of the
  table, yet the result is \<open>undefined\<close> and not an entry of the list of \<open>balanced\<close>,
  although the seed is 5875. For \<open>alpha = 2^1023\<close> the product \<open>alpha * 1000\<close>
  overflows, the seed is \<open>Infinity\<close>, and the result for the label \<open>balanced\<close> is
  \<open>undefined\<close>. For \<open>alpha = -0.5\<close> the seed is -500, the index \<open>-500 % 6\<close> is -2,
  and the result is \<open>undefined\<close>.
\<close>

theorem getRandomFortune_index_counterexample:
  "map_of fortunes ''constructor'' = None
   \<and> fortune_seed
       \<lparr>alpha = 1 / 2, beta = 1 / 4, gamma = 1 / 8, delta = 1 / 8, theta = 0\<rparr>
       \<lparr>focus = 0, clear = 0, meditation = 1 / 2, dream = 0\<rparr> = Fin 5875
   \<and> getRandomFortune ''constructor''
       \<lparr>alpha = 1 / 2, beta = 1 / 4, gamma = 1 / 8, delta = 1 / 8, theta = 0\<rparr>
       \<lparr>focus = 0, clear = 0, meditation = 1 / 2, dream = 0\<rparr> = None
   \<and> fortune_seed
       \<lparr>alpha = overflow_threshold / 2, beta = 0, gamma = 0, delta = 0, theta = 0\<rparr>
       \<lparr>focus = 0, clear = 0, meditation = 0, dream = 0\<rparr> = PInf
   \<and> getRandomFortune ''balanced''
       \<lparr>alpha = overflow_threshold / 2, beta = 0, gamma = 0, delta = 0, theta = 0\<rparr>
       \<lparr>focus = 0, clear = 0, meditation = 0, dream = 0\<rparr> = None
   \<and> fortune_seed
       \<lparr>alpha = - (1 / 2), beta = 0, gamma = 0, delta = 0, theta = 0\<rparr>
       \<lparr>focus = 0, clear = 0, meditation = 0, dream = 0\<rparr> = Fin (- 500)
   \<and> getRandomFortune ''balanced''
       \<lparr>alpha = - (1 / 2), beta = 0, gamma = 0, delta = 0, theta = 0\<rparr>
       \<lparr>focus = 0, clear = 0, meditation = 0, dream = 0\<rparr> = None"
proof (intro conjI)
  have n: "to_number (- 500) = Fin (- 500)"
    using to_number_of_int [of "- 500"] by simp
  have "seed_sum
       \<lparr>alpha = - (1 / 2), beta = 0, gamma = 0, delta = 0, theta = 0\<rparr>
       \<lparr>focus = 0, clear = 0, meditation = 0, dream = 0\<rparr> = Fin (- 500)"
    by (simp add: seed_sum_def to_number_zero n)
  then show g: "fortune_seed
       \<lparr>alpha = - (1 / 2), beta = 0, gamma = 0, delta = 0, theta = 0\<rparr>
       \<lparr>focus = 0, clear = 0, meditation = 0, dream = 0\<rparr> = Fin (- 500)"
    by (simp add: fortune_seed_def Math_round_def)
  have l: "length balanced_fortunes = 6" by (simp add: balanced_fortunes_def)
  have r: "js_remainder (Fin (- 500)) (length balanced_fortunes) = Fin (- 2)"
    unfolding l by (simp add: js_remainder_def truncate_real_def)
  show "getRandomFortune ''balanced''
       \<lparr>alpha = - (1 / 2), beta = 0, gamma = 0, delta = 0, theta = 0\<rparr>
       \<lparr>focus = 0, clear = 0, meditation = 0, dream = 0\<rparr> = None"
    unfolding getRandomFortune_def g
    by (simp add: fortunes_get_def fortunes_balanced r array_get_def)
next
  show c: "map_of fortunes ''constructor'' = None" by (simp add: fortunes_def)
  show "fortune_seed
       \<lparr>alpha = 1 / 2, beta = 1 / 4, gamma = 1 / 8, delta = 1 / 8, theta = 0\<rparr>
       \<lparr>focus = 0, clear = 0, meditation = 1 / 2, dream = 0\<rparr> = Fin 5875"
    by (simp add: fortune_seed_def seed_sum_example Math_round_def)
  show "getRandomFortune ''constructor''
       \<lparr>alpha = 1 / 2, beta = 1 / 4, gamma = 1 / 8, delta = 1 / 8, theta = 0\<rparr>
       \<lparr>focus = 0, clear = 0, meditation = 1 / 2, dream = 0\<rparr> = None"
    by (simp add: getRandomFortune_def fortunes_get_def Object_prototype_keys_def c)
  have s: "seed_sum
       \<lparr>alpha = overflow_threshold / 2, beta = 0, gamma = 0, delta = 0, theta = 0\<rparr>
       \<lparr>focus = 0, clear = 0, meditation = 0, dream = 0\<rparr> = PInf"
    unfolding seed_sum_def
    by (simp add: seed_overflow to_number_zero del: fmul.simps)
       (simp add: to_number_zero)
  then show f: "fortune_seed
       \<lparr>alpha = overflow_threshold / 2, beta = 0, gamma = 0, delta = 0, theta = 0\<rparr>
       \<lparr>focus = 0, clear = 0, meditation = 0, dream = 0\<rparr> = PInf"
    by (simp add: fortune_seed_def Math_round_def)
  show "getRandomFortune ''balanced''
       \<lparr>alpha = overflow_threshold / 2, beta = 0, gamma = 0, delta = 0, theta = 0\<rparr>
       \<lparr>focus = 0, clear = 0, meditation = 0, dream = 0\<rparr> = None"
    unfolding getRandomFortune_def f
    by (simp add: fortunes_get_def Object_prototype_keys_def fortunes_balanced
        js_remainder_def array_get_def)
qed

subsection \<open>Base64 round trip\<close>

lemma index_of_nth:
  "distinct xs \<Longrightarrow> i < length xs \<Longrightarrow> index_of (xs ! i) xs = Some i"
proof (induction xs arbitrary: i)
  case Nil
  then show ?case by simp
next
  case (Cons y ys)
  show ?case
  proof (cases i)
    case 0
    then show ?thesis by simp
  next
    case (Suc j)
    with Cons.prems have j: "j < length ys" and d: "distinct ys" and n: "y \<notin> set ys" by simp_all
    from j n have "ys ! j \<noteq> y" by (metis nth_mem)
    with Cons.IH [OF d j] Suc show ?thesis by simp
  qed
qed

lemma index_of_Some: "index_of x xs = Some i \<Longrightarrow> i < length xs \<and> xs ! i = x"
proof (induction xs arbitrary: i)
  case Nil
  then show ?case by simp
next
  case (Cons y ys)
  then show ?case by (auto split: if_splits option.splits)
qed

lemma b64_alphabet_length: "length b64_alphabet = 64"
  by (simp add: b64_alphabet_def)

lemma b64_alphabet_distinct: "distinct b64_alphabet"
  by (simp add: b64_alphabet_def)

lemma b64_alphabet_no_equals: "CHR ''='' \<notin> set b64_alphabet"
  by (simp add: b64_alphabet_def)

lemma b64_alphabet_no_whitespace: "c \<in> set b64_alphabet \<Longrightarrow> \<not> is_ascii_whitespace c"
  by (auto simp: b64_alphabet_def is_ascii_whitespace_def)

lemma b64_value_char: "i < 64 \<Longrightarrow> b64_value (b64_char i) = Some i"
  unfolding b64_value_def b64_char_def
  by (rule index_of_nth [OF b64_alphabet_distinct]) (simp add: b64_alphabet_length)

lemma b64_char_in: "i < 64 \<Longrightarrow> b64_char i \<in> set b64_alphabet"
  unfolding b64_char_def by (rule nth_mem) (simp add: b64_alphabet_length)

lemma b64_value_Some: "b64_value c = Some i \<Longrightarrow> i < 64 \<and> b64_char i = c"
  unfolding b64_value_def b64_char_def
  using index_of_Some [of c b64_alphabet i] by (simp add: b64_alphabet_length)

lemma split_hi: "y < k \<Longrightarrow> (x * k + y) div k = (x::nat)"
  by simp

lemma split_lo: "y < k \<Longrightarrow> (x * k + y) mod k = (y::nat)"
  by simp

lemma byte_parts:
  assumes "b < (256::nat)"
  shows "b div 4 < 64" "b div 16 < 16" "b div 64 < 4"
  using assms by (simp_all add: div_less_iff_less_mult)

lemma sextets_bound:
  "list_all (\<lambda>b. b < 256) bs \<Longrightarrow> list_all (\<lambda>v. v < 64) (b64_sextets bs)"
proof (induction bs rule: b64_sextets.induct)
  case (1 a b c rest)
  then have a: "a < 256" and b: "b < 256" and c: "c < 256" by simp_all
  have "a mod 4 < 4" "b mod 16 < 16" by simp_all
  with byte_parts [OF a] byte_parts [OF b] byte_parts [OF c]
  have "a div 4 < 64" "(a mod 4) * 16 + b div 16 < 64" "(b mod 16) * 4 + c div 64 < 64"
    by linarith+
  with 1 show ?case by simp
next
  case (2 a b)
  then have a: "a < 256" and b: "b < 256" by simp_all
  have "a mod 4 < 4" "b mod 16 < 16" by simp_all
  with byte_parts [OF a] byte_parts [OF b]
  have "a div 4 < 64" "(a mod 4) * 16 + b div 16 < 64" "(b mod 16) * 4 < 64"
    by linarith+
  then show ?case by simp
next
  case (3 a)
  then have a: "a < 256" by simp
  have "a mod 4 < 4" by simp
  with byte_parts [OF a] have "a div 4 < 64" "(a mod 4) * 16 < 64" by linarith+
  then show ?case by simp
next
  case 4
  then show ?case by simp
qed

lemma first_byte:
  assumes "b < (256::nat)"
  shows "a div 4 * 4 + ((a mod 4) * 16 + b div 16) div 16 = a"
proof -
  have "((a mod 4) * 16 + b div 16) div 16 = a mod 4"
    by (rule split_hi) (rule byte_parts [OF assms])
  then show ?thesis by simp
qed

lemma second_byte:
  assumes "b < (256::nat)" "c < (256::nat)"
  shows "(((a mod 4) * 16 + b div 16) mod 16) * 16 + ((b mod 16) * 4 + c div 64) div 4 = b"
proof -
  have "((a mod 4) * 16 + b div 16) mod 16 = b div 16"
    by (rule split_lo) (rule byte_parts [OF assms(1)])
  moreover have "((b mod 16) * 4 + c div 64) div 4 = b mod 16"
    by (rule split_hi) (rule byte_parts [OF assms(2)])
  ultimately show ?thesis by simp
qed

lemma third_byte:
  assumes "c < (256::nat)"
  shows "(((b mod 16) * 4 + c div 64) mod 4) * 64 + c mod 64 = c"
proof -
  have "((b mod 16) * 4 + c div 64) mod 4 = c div 64"
    by (rule split_lo) (rule byte_parts [OF assms])
  then show ?thesis by simp
qed

lemma bytes_sextets:
  "list_all (\<lambda>b. b < 256) bs \<Longrightarrow> b64_bytes (b64_sextets bs) = bs"
proof (induction bs rule: b64_sextets.induct)
  case (1 a b c rest)
  then have r: "b64_bytes (b64_sextets rest) = rest"
    and a: "a < 256" and b: "b < 256" and c: "c < 256" by simp_all
  show ?case
    using r first_byte [OF b, of a] second_byte [OF b c, of a] third_byte [OF c, of b]
    by simp
next
  case (2 a b)
  then have b: "b < 256" by simp
  have z: "(0::nat) < 256" by simp
  show ?case using first_byte [OF b, of a] second_byte [OF b z, of a] by simp
next
  case (3 a)
  have z: "(0::nat) < 256" by simp
  show ?case using first_byte [OF z, of a] by simp
next
  case 4
  then show ?case by simp
qed

lemma sextets_length:
  "length (b64_sextets bs) =
     4 * (length bs div 3) + (if length bs mod 3 = 0 then 0 else length bs mod 3 + 1)"
  by (induction bs rule: b64_sextets.induct) simp_all

lemma of_char_byte: "list_all (\<lambda>b. b < 256) (map of_char (s :: string) :: nat list)"
  by (simp add: list_all_iff)

lemma payload_alphabet:
  "set (map b64_char (b64_sextets (map of_char (s :: string)))) \<subseteq> set b64_alphabet"
proof -
  have "list_all (\<lambda>v. v < 64) (b64_sextets (map of_char s))"
    by (rule sextets_bound [OF of_char_byte])
  then show ?thesis by (auto simp: list_all_iff b64_char_in)
qed

lemma payload_no_equals:
  "CHR ''='' \<notin> set (map b64_char (b64_sextets (map of_char (s :: string))))"
  using payload_alphabet [of s] b64_alphabet_no_equals by blast

lemma strip_padding_append:
  assumes "CHR ''='' \<notin> set p"
  shows "strip_padding (p @ replicate k (CHR ''='')) = p"
proof -
  have "dropWhile (\<lambda>c. c = CHR ''='') (replicate k (CHR ''='') @ rev p)
          = dropWhile (\<lambda>c. c = CHR ''='') (rev p)"
    by (rule dropWhile_append2) simp
  also have "\<dots> = rev p"
    using assms by (cases "rev p") (auto simp: dropWhile_eq_self_iff)
  finally show ?thesis by (simp add: strip_padding_def)
qed

lemma strip_two_equals_append:
  assumes "CHR ''='' \<notin> set p" and "k \<le> 2"
  shows "strip_two_equals (p @ replicate k (CHR ''='')) = p"
proof -
  from assms(2) consider "k = 0" | "k = 1" | "k = 2" by linarith
  then show ?thesis
  proof cases
    case 1
    show ?thesis using assms(1) unfolding 1
      by (cases "rev p") (auto simp: strip_two_equals_def)
  next
    case 2
    show ?thesis using assms(1) unfolding 2
      by (cases "rev p") (auto simp: strip_two_equals_def)
  next
    case 3
    have "replicate 2 (CHR ''='') = [CHR ''='', CHR ''='']" by (simp add: numeral_2_eq_2)
    then show ?thesis unfolding 3 by (simp add: strip_two_equals_def)
  qed
qed

lemma payload_length_mod:
  fixes s :: string
  defines "L \<equiv> length (map b64_char (b64_sextets (map of_char s :: nat list)))"
  shows "(L + (3 - length s mod 3) mod 3) mod 4 = 0"
    and "L mod 4 \<noteq> 1"
    and "token_padding (map b64_char (b64_sextets (map of_char s :: nat list)))
           = int ((3 - length s mod 3) mod 3)"
proof -
  define q where "q = length s div 3"
  define r where "r = length s mod 3"
  have L: "L = 4 * q + (if r = 0 then 0 else r + 1)"
    unfolding L_def q_def r_def using sextets_length [of "map of_char s"] by simp
  have "r < 3" unfolding r_def by simp
  then consider (0) "r = 0" | (1) "r = 1" | (2) "r = 2" by linarith
  then have "(L + (3 - r) mod 3) mod 4 = 0 \<and> L mod 4 \<noteq> 1
             \<and> (4 - int L mod 4) mod 4 = int ((3 - r) mod 3)"
  proof cases
    case 0
    then have "L = 4 * q" using L by simp
    then show ?thesis unfolding 0 by simp
  next
    case 1
    then have "L = 4 * q + 2" using L by simp
    then show ?thesis unfolding 1 by (simp add: zmod_int [symmetric]; presburger?)
  next
    case 2
    then have "L = 4 * q + 3" using L by simp
    then show ?thesis unfolding 2 by (simp add: zmod_int [symmetric]; presburger?)
  qed
  then show "(L + (3 - length s mod 3) mod 3) mod 4 = 0" and "L mod 4 \<noteq> 1"
    and "token_padding (map b64_char (b64_sextets (map of_char s :: nat list)))
           = int ((3 - length s mod 3) mod 3)"
    unfolding r_def token_padding_def L_def by simp_all
qed

lemma atob_btoa: "atob (btoa s) = Inr s"
proof -
  let ?p = "map b64_char (b64_sextets (map of_char s :: nat list))"
  let ?k = "(3 - length s mod 3) mod 3"
  have k: "?k \<le> 2" by linarith
  have ws: "filter (\<lambda>c. \<not> is_ascii_whitespace c) (btoa s) = btoa s"
  proof (rule filter_True, intro ballI)
    fix c assume "c \<in> set (btoa s)"
    then have "c \<in> set b64_alphabet \<or> c = CHR ''=''"
      using payload_alphabet [of s] by (auto simp: btoa_def)
    then show "\<not> is_ascii_whitespace c"
      using b64_alphabet_no_whitespace by (auto simp: is_ascii_whitespace_def)
  qed
  have len: "length (btoa s) mod 4 = 0"
    using payload_length_mod(1) [of s] by (simp add: btoa_def)
  have st: "strip_two_equals (btoa s) = ?p"
    unfolding btoa_def by (rule strip_two_equals_append [OF payload_no_equals k])
  have ok: "list_all (\<lambda>c. b64_value c \<noteq> None) ?p"
  proof -
    have "list_all (\<lambda>v. v < 64) (b64_sextets (map of_char s))"
      by (rule sextets_bound [OF of_char_byte])
    then show ?thesis by (auto simp: list_all_iff b64_value_char)
  qed
  have vals: "map (\<lambda>c. the (b64_value c)) ?p = b64_sextets (map of_char s)"
  proof -
    have "list_all (\<lambda>v. v < 64) (b64_sextets (map of_char s))"
      by (rule sextets_bound [OF of_char_byte])
    then have "map (\<lambda>v. the (b64_value (b64_char v))) (b64_sextets (map of_char s))
                = map (\<lambda>v. v) (b64_sextets (map of_char s))"
      by (intro map_cong) (auto simp: list_all_iff b64_value_char)
    then show ?thesis by (simp add: comp_def)
  qed
  have bk: "map char_of (b64_bytes (b64_sextets (map of_char s :: nat list))) = s"
    by (simp add: bytes_sextets [OF of_char_byte] comp_def)
  have "atob (btoa s) = Inr (map char_of (b64_bytes (map (\<lambda>c. the (b64_value c)) ?p)))"
    unfolding atob_def ws Let_def
    using payload_length_mod(2) [of s] ok
    by (simp add: len st)
  then show ?thesis unfolding vals bk .
qed

lemma token_roundtrip:
  "String_repeat ''='' (token_padding (strip_padding (btoa s)))
     = Inr (replicate ((3 - length s mod 3) mod 3) (CHR ''=''))"
  "strip_padding (btoa s) @ replicate ((3 - length s mod 3) mod 3) (CHR ''='') = btoa s"
proof -
  have sp: "strip_padding (btoa s) = map b64_char (b64_sextets (map of_char s :: nat list))"
    unfolding btoa_def by (rule strip_padding_append [OF payload_no_equals])
  show "String_repeat ''='' (token_padding (strip_padding (btoa s)))
     = Inr (replicate ((3 - length s mod 3) mod 3) (CHR ''=''))"
    unfolding sp payload_length_mod(3) by (simp add: String_repeat_def)
  show "strip_padding (btoa s) @ replicate ((3 - length s mod 3) mod 3) (CHR ''='') = btoa s"
    unfolding sp by (simp add: btoa_def)
qed

subsection \<open>Decimal numbers and the two patterns\<close>

lemma digit_char_code: "d < 10 \<Longrightarrow> of_char (digit_char d) = 48 + d"
  by (simp add: digit_char_def)

lemma digit_char_props:
  assumes "d < 10"
  shows "is_digit (digit_char d)" and "digit_value (digit_char d) = d"
    and "digit_char d \<noteq> CHR ''f''" and "digit_char d \<noteq> CHR ''-''"
proof -
  note o = digit_char_code [OF assms]
  show "is_digit (digit_char d)" using assms by (simp add: is_digit_def o)
  show "digit_value (digit_char d) = d" by (simp add: digit_value_def o)
  show "digit_char d \<noteq> CHR ''f''"
  proof
    assume "digit_char d = CHR ''f''"
    then have "of_char (digit_char d) = (of_char (CHR ''f'') :: nat)" by simp
    with o assms show False by simp
  qed
  show "digit_char d \<noteq> CHR ''-''"
  proof
    assume "digit_char d = CHR ''-''"
    then have "of_char (digit_char d) = (of_char (CHR ''-'') :: nat)" by simp
    with o assms show False by simp
  qed
qed

lemma not_digit: "\<not> is_digit (CHR ''x'')" "\<not> is_digit (CHR ''-'')" "\<not> is_digit (CHR ''f'')"
  by (simp_all add: is_digit_def)

lemma digits_of_digits: "list_all is_digit (digits_of n) \<and> digits_of n \<noteq> []"
proof (induction n rule: digits_of.induct)
  case (1 n)
  show ?case
  proof (cases "n < 10")
    case True
    then show ?thesis by (simp add: digits_of.simps [of n] digit_char_props)
  next
    case False
    have "n mod 10 < 10" by simp
    with 1 False show ?thesis by (simp add: digits_of.simps [of n] digit_char_props)
  qed
qed

lemma parse_digits_snoc: "parse_digits (ds @ [c]) = 10 * parse_digits ds + digit_value c"
  by (simp add: parse_digits_def)

lemma parse_digits_of: "parse_digits (digits_of n) = n"
proof (induction n rule: digits_of.induct)
  case (1 n)
  show ?case
  proof (cases "n < 10")
    case True
    then show ?thesis
      by (simp add: digits_of.simps [of n] parse_digits_def digit_char_props)
  next
    case False
    have "n mod 10 < 10" by simp
    with 1 False show ?thesis
      by (simp add: digits_of.simps [of n] parse_digits_snoc digit_char_props)
  qed
qed

lemma digits_of_hd:
  "\<exists>c cs. digits_of n = c # cs \<and> is_digit c \<and> c \<noteq> CHR ''f'' \<and> c \<noteq> CHR ''-''"
proof -
  from digits_of_digits [of n] obtain c cs where e: "digits_of n = c # cs" and d: "is_digit c"
    by (cases "digits_of n") auto
  from d not_digit have "c \<noteq> CHR ''f''" "c \<noteq> CHR ''-''" by auto
  with e d show ?thesis by blast
qed

lemma parseInt_digits: "parseInt (digits_of n) = int n"
proof -
  from digits_of_hd [of n] obtain c cs where e: "digits_of n = c # cs" and m: "c \<noteq> CHR ''-''"
    by blast
  have "parseInt (c # cs) = int (parse_digits (c # cs))" using m by (simp add: parseInt_def)
  then show ?thesis using parse_digits_of [of n] by (simp add: e)
qed

lemma parseInt_toString: "parseInt (Number_toString k) = k"
proof (cases "k < 0")
  case True
  then show ?thesis by (simp add: Number_toString_def parseInt_def parse_digits_of)
next
  case False
  then show ?thesis by (simp add: Number_toString_def parseInt_digits)
qed

lemma match_fortune_digits: "match_fortune (digits_of n @ rest) = None"
proof -
  from digits_of_hd [of n] obtain c cs where e: "digits_of n = c # cs" and f: "c \<noteq> CHR ''f''"
    by blast
  show ?thesis by (simp add: match_fortune_def e f)
qed

lemma signed_digits:
  "(case Number_toString k of [] \<Rightarrow> [] | m # u \<Rightarrow> if m = CHR ''-'' then u else Number_toString k)
     = digits_of (nat \<bar>k\<bar>)"
proof (cases "k < 0")
  case True
  then have "nat \<bar>k\<bar> = nat (- k)" by simp
  with True show ?thesis by (simp add: Number_toString_def)
next
  case False
  from digits_of_hd [of "nat k"] obtain c cs
    where e: "digits_of (nat k) = c # cs" and m: "c \<noteq> CHR ''-''" by blast
  from False have "nat \<bar>k\<bar> = nat k" by simp
  with False e m show ?thesis by (simp add: Number_toString_def)
qed

lemma match_data_id:
  "match_data (digits_of n @ ''x'' @ Number_toString k) = Some (digits_of n, Number_toString k)"
proof -
  have d: "list_all is_digit (digits_of n)" and ne: "digits_of n \<noteq> []"
    using digits_of_digits [of n] by simp_all
  have t: "takeWhile is_digit (digits_of n @ ''x'' @ Number_toString k) = digits_of n"
    using d by (simp add: takeWhile_append2 list_all_iff not_digit)
  have r: "dropWhile is_digit (digits_of n @ ''x'' @ Number_toString k)
             = ''x'' @ Number_toString k"
    using d by (simp add: dropWhile_append2 list_all_iff not_digit)
  have g: "list_all is_digit (digits_of (nat \<bar>k\<bar>))" "digits_of (nat \<bar>k\<bar>) \<noteq> []"
    using digits_of_digits [of "nat \<bar>k\<bar>"] by simp_all
  show ?thesis
    unfolding match_data_def t r Let_def using ne g
    by (simp add: signed_digits)
qed

subsection \<open>Identifier round trip\<close>

lemma ToInt32_of_int: "ToInt32 (of_int k) = word_of_int k"
  by (simp add: ToInt32_def)

lemma js_xor_of_int:
  "js_xor (of_int a) (of_int b) = sint ((word_of_int a :: 32 word) XOR word_of_int b)"
  by (simp add: js_xor_def ToInt32_of_int)

lemma js_xor_B: "js_xor (of_int a) 0xB = sint ((word_of_int a :: 32 word) XOR 11)"
  using js_xor_of_int [of a 11] by simp

lemma js_xor_2A: "js_xor (of_int a) 0x2A = sint ((word_of_int a :: 32 word) XOR 42)"
  using js_xor_of_int [of a 42] by simp

lemma xor_twice: "(w XOR c) XOR c = (w :: 32 word)"
  by (simp add: xor.assoc)

lemma sint_int32:
  assumes "- (2 ^ 31) \<le> k" and "k < 2 ^ 31"
  shows "sint (word_of_int k :: 32 word) = k"
proof -
  have "(k + 2 ^ 31) mod 2 ^ 32 = k + 2 ^ 31"
    using assms by (intro mod_pos_pos_trivial) simp_all
  then show ?thesis by (simp add: int_word_sint)
qed

lemma decode_headband:
  assumes "- (2 ^ 31) \<le> h" and "h < 2 ^ 31"
  shows "js_xor (of_int (js_xor (of_int h) 0xB + 37 - 37)) 0xB = h"
proof -
  have "js_xor (of_int h) 0xB + 37 - 37 = js_xor (of_int h) 0xB" by simp
  then have "js_xor (of_int (js_xor (of_int h) 0xB + 37 - 37)) 0xB
          = sint ((word_of_int (sint ((word_of_int h :: 32 word) XOR 11)) :: 32 word) XOR 11)"
    by (simp only: js_xor_B)
  also have "\<dots> = sint (((word_of_int h :: 32 word) XOR 11) XOR 11)" by simp
  also have "\<dots> = sint (word_of_int h :: 32 word)" by (simp only: xor_twice)
  also have "\<dots> = h" by (rule sint_int32 [OF assms])
  finally show ?thesis .
qed

lemma decode_run:
  assumes "- (2 ^ 31) \<le> r" and "r < 2 ^ 31"
  shows "js_xor (of_int (js_xor (of_int r) 0x2A * 17 + 531 - 531) / 17) 0x2A = r"
proof -
  have "(of_int (js_xor (of_int r) 0x2A * 17 + 531 - 531) :: real) / 17
          = of_int (js_xor (of_int r) 0x2A)" by simp
  then have "js_xor (of_int (js_xor (of_int r) 0x2A * 17 + 531 - 531) / 17) 0x2A
          = sint ((word_of_int (sint ((word_of_int r :: 32 word) XOR 42)) :: 32 word) XOR 42)"
    by (simp only: js_xor_2A)
  also have "\<dots> = sint (((word_of_int r :: 32 word) XOR 42) XOR 42)" by simp
  also have "\<dots> = sint (word_of_int r :: 32 word)" by (simp only: xor_twice)
  also have "\<dots> = r" by (rule sint_int32 [OF assms])
  finally show ?thesis .
qed

lemma decodeId_token:
  "decodeId (strip_padding (btoa (digits_of n @ ''x'' @ Number_toString k)))
     = Some (Data (js_xor (of_int (int n - 37)) 0xB) (js_xor (of_int (k - 531) / 17) 0x2A))"
  unfolding decodeId_def decodeId_try_def token_roundtrip sum.case atob_btoa
    match_fortune_digits option.case match_data_id prod.case Let_def
    parseInt_digits parseInt_toString
  by simp

lemma headband_nonneg:
  assumes "0 \<le> h" and "h \<le> 10"
  shows "0 \<le> js_xor (of_int h) 0xB + 37"
proof -
  from assms have "h = 0 \<or> h = 1 \<or> h = 2 \<or> h = 3 \<or> h = 4 \<or> h = 5 \<or> h = 6 \<or> h = 7
     \<or> h = 8 \<or> h = 9 \<or> h = 10" by presburger
  then show ?thesis by (elim disjE) (simp_all add: js_xor_def ToInt32_def)
qed

lemma encode_decode_general:
  assumes h: "- (2 ^ 31) \<le> headband" "headband < 2 ^ 31"
    and r: "- (2 ^ 31) \<le> run" "run < 2 ^ 31"
    and nn: "0 \<le> js_xor (of_int headband) 0xB + 37"
  shows "decodeId (encodeId headband run) = Some (Data headband run)"
proof -
  define oh where "oh = js_xor (of_int headband) 0xB + 37"
  define orr where "orr = js_xor (of_int run) 0x2A * 17 + 531"
  have ts: "Number_toString oh = digits_of (nat oh)"
    using nn by (simp add: Number_toString_def oh_def)
  have "encodeId headband run
          = strip_padding (btoa (digits_of (nat oh) @ ''x'' @ Number_toString orr))"
    by (simp add: encodeId_def Let_def oh_def [symmetric] orr_def [symmetric] ts)
  then have "decodeId (encodeId headband run)
          = Some (Data (js_xor (of_int (int (nat oh) - 37)) 0xB)
                       (js_xor (of_int (orr - 531) / 17) 0x2A))"
    by (simp only: decodeId_token)
  also have "int (nat oh) = oh" using nn by (simp add: oh_def)
  also have "js_xor (of_int (oh - 37)) 0xB = headband"
    unfolding oh_def by (rule decode_headband [OF h])
  also have "js_xor (of_int (orr - 531) / 17) 0x2A = run"
    unfolding orr_def by (rule decode_run [OF r])
  finally show ?thesis .
qed

text \<open>
  Claim C1. For every integer headband in \<open>[0, 10]\<close> and run in \<open>[1, 10000]\<close>, decoding
  the token that \<open>encodeId\<close> produces gives back the data identifier with this headband
  and run.
\<close>

theorem decodeId_encodeId:
  assumes "0 \<le> headband" "headband \<le> 10" "1 \<le> run" "run \<le> 10000"
  shows "decodeId (encodeId headband run) = Some (Data headband run)"
proof (rule encode_decode_general)
  show "- (2 ^ 31) \<le> headband" "headband < 2 ^ 31" using assms(1,2) by simp_all
  show "- (2 ^ 31) \<le> run" "run < 2 ^ 31" using assms(3,4) by simp_all
  show "0 \<le> js_xor (of_int headband) 0xB + 37" using assms(1,2) by (rule headband_nonneg)
qed

theorem decodeId_encodeId_witness:
  "(0::int) \<le> 3 \<and> (3::int) \<le> 10 \<and> (1::int) \<le> 7 \<and> (7::int) \<le> 10000
   \<and> decodeId (encodeId 3 7) = Some (Data 3 7)"
  using decodeId_encodeId [of 3 7] by simp

subsection \<open>Padding, patterns and totality of decoding\<close>

lemma match_fortune_iff:
  "(match_fortune s = Some ds) = (s = CHR ''f'' # ds \<and> ds \<noteq> [] \<and> list_all is_digit ds)"
  by (cases s) (auto simp: match_fortune_def)

lemma signed_digits_iff:
  "((case g of [] \<Rightarrow> [] | m # u \<Rightarrow> if m = CHR ''-'' then u else g) \<noteq> []
     \<and> list_all is_digit (case g of [] \<Rightarrow> [] | m # u \<Rightarrow> if m = CHR ''-'' then u else g))
   = (\<exists>b. (g = b \<or> g = CHR ''-'' # b) \<and> b \<noteq> [] \<and> list_all is_digit b)"
proof (cases g)
  case Nil
  then show ?thesis by simp
next
  case (Cons m u)
  show ?thesis
  proof (cases "m = CHR ''-''")
    case True
    then show ?thesis using Cons not_digit(2) by auto
  next
    case False
    then show ?thesis using Cons by auto
  qed
qed

lemma match_data_iff:
  "(match_data s = Some (a, g))
   = (s = a @ ''x'' @ g \<and> a \<noteq> [] \<and> list_all is_digit a
      \<and> (\<exists>b. (g = b \<or> g = CHR ''-'' # b) \<and> b \<noteq> [] \<and> list_all is_digit b))"
proof
  assume m: "match_data s = Some (a, g)"
  let ?g1 = "takeWhile is_digit s"
  let ?rest = "dropWhile is_digit s"
  from m have ne: "?g1 \<noteq> []" by (auto simp: match_data_def Let_def split: if_splits)
  from m ne obtain c g2 where r: "?rest = c # g2"
    by (cases ?rest) (auto simp: match_data_def Let_def)
  from m ne r have c: "c = CHR ''x''" and ag: "a = ?g1" "g = g2"
    and sd: "(case g2 of [] \<Rightarrow> [] | m # u \<Rightarrow> if m = CHR ''-'' then u else g2) \<noteq> []
       \<and> list_all is_digit (case g2 of [] \<Rightarrow> [] | m # u \<Rightarrow> if m = CHR ''-'' then u else g2)"
    by (auto simp: match_data_def Let_def split: if_splits)
  have "s = ?g1 @ ?rest" by simp
  then have s: "s = a @ ''x'' @ g" using r c ag by simp
  have d: "list_all is_digit a" unfolding ag list_all_iff by (auto dest: set_takeWhileD)
  from sd have "\<exists>b. (g = b \<or> g = CHR ''-'' # b) \<and> b \<noteq> [] \<and> list_all is_digit b"
    unfolding ag(2) by (simp only: signed_digits_iff)
  moreover have "a \<noteq> []" using ne ag by simp
  ultimately show "s = a @ ''x'' @ g \<and> a \<noteq> [] \<and> list_all is_digit a
      \<and> (\<exists>b. (g = b \<or> g = CHR ''-'' # b) \<and> b \<noteq> [] \<and> list_all is_digit b)"
    using s d by (intro conjI) assumption+
next
  assume h: "s = a @ ''x'' @ g \<and> a \<noteq> [] \<and> list_all is_digit a
      \<and> (\<exists>b. (g = b \<or> g = CHR ''-'' # b) \<and> b \<noteq> [] \<and> list_all is_digit b)"
  then have s: "s = a @ ''x'' @ g" and ne: "a \<noteq> []" and d: "list_all is_digit a" by simp_all
  have t: "takeWhile is_digit s = a"
    unfolding s using d by (simp add: takeWhile_append2 list_all_iff not_digit)
  have r: "dropWhile is_digit s = ''x'' @ g"
    unfolding s using d by (simp add: dropWhile_append2 list_all_iff not_digit)
  from h have "(case g of [] \<Rightarrow> [] | m # u \<Rightarrow> if m = CHR ''-'' then u else g) \<noteq> []
     \<and> list_all is_digit (case g of [] \<Rightarrow> [] | m # u \<Rightarrow> if m = CHR ''-'' then u else g)"
    by (simp only: signed_digits_iff)
  then show "match_data s = Some (a, g)"
    unfolding match_data_def t r Let_def using ne by simp
qed

lemma token_padding_cases:
  "token_padding t = int ((4 - length t mod 4) mod 4)"
proof -
  define m where "m = length t mod 4"
  have i: "int (length t) mod 4 = int m"
    unfolding m_def using zmod_int [of "length t" 4] by (simp only: of_nat_numeral)
  have "m < 4" by (simp add: m_def)
  then consider "m = 0" | "m = 1" | "m = 2" | "m = 3" by linarith
  then have "(4 - int m) mod 4 = int ((4 - m) mod 4)"
    by cases simp_all
  then show ?thesis unfolding token_padding_def i m_def .
qed

lemma token_padding_range:
  "\<exists>n. token_padding t = int n \<and> n < 4 \<and> (length t + n) mod 4 = 0
       \<and> String_repeat ''='' (token_padding t) = Inr (replicate n (CHR ''=''))"
proof -
  define m where "m = length t mod 4"
  define n where "n = (4 - m) mod 4"
  have a: "token_padding t = int n" unfolding n_def m_def by (rule token_padding_cases)
  have b: "n < 4" by (simp add: n_def)
  have "m < 4" by (simp add: m_def)
  then consider "m = 0" | "m = 1" | "m = 2" | "m = 3" by linarith
  then have "(m + n) mod 4 = 0" unfolding n_def by cases simp_all
  moreover have "(length t + n) mod 4 = (m + n) mod 4"
    unfolding m_def by (simp add: mod_add_left_eq)
  ultimately have c: "(length t + n) mod 4 = 0" by simp
  have d: "String_repeat ''='' (token_padding t) = Inr (replicate n (CHR ''=''))"
    unfolding a by (simp add: String_repeat_def)
  show ?thesis using a b c d by (intro exI [of _ n] conjI)
qed

lemma decodeId_unfold:
  "decodeId t =
     (case atob (t @ replicate ((4 - length t mod 4) mod 4) (CHR ''='')) of
        Inl e \<Rightarrow> None
      | Inr decoded \<Rightarrow>
          (case match_fortune decoded of
             Some g \<Rightarrow> Some (Fortune (parseInt g))
           | None \<Rightarrow>
               (case match_data decoded of
                  Some (g1, g2) \<Rightarrow>
                    Some (Data (js_xor (of_int (parseInt g1 - 37)) 0xB)
                               (js_xor (of_int (parseInt g2 - 531) / 17) 0x2A))
                | None \<Rightarrow> None)))"
proof -
  have r: "String_repeat ''='' (token_padding t)
             = Inr (replicate ((4 - length t mod 4) mod 4) (CHR ''=''))"
    unfolding token_padding_cases by (simp add: String_repeat_def)
  show ?thesis
    unfolding decodeId_def decodeId_try_def r sum.case Let_def
    by (simp split: sum.splits option.splits prod.splits)
qed

text \<open>
  Claim C2, as amended. \<open>decodeId\<close> appends \<open>(4 - length mod 4) mod 4\<close> padding
  characters, which brings the length to a multiple of 4, and base64-decodes; a decoding
  error gives \<open>null\<close>. A decoded string of the form \<open>f\<close> digits gives fortune mode with
  the digits as timestamp; one of the form digits \<open>x\<close> optional minus digits gives data
  mode with the two numbers de-obfuscated; any other decoded string gives \<open>null\<close>.
\<close>

theorem decodeId_padding_patterns:
  "(let n = (4 - length t mod 4) mod 4
    in (length t + n) mod 4 = 0
       \<and> (\<forall>e. atob (t @ replicate n (CHR ''='')) = Inl e \<longrightarrow> decodeId t = None)
       \<and> (\<forall>decoded. atob (t @ replicate n (CHR ''='')) = Inr decoded \<longrightarrow>
            (\<forall>ds. decoded = CHR ''f'' # ds \<and> ds \<noteq> [] \<and> list_all is_digit ds
                   \<longrightarrow> decodeId t = Some (Fortune (parseInt ds)))
          \<and> (\<forall>a g. decoded = a @ ''x'' @ g \<and> a \<noteq> [] \<and> list_all is_digit a
                     \<and> (\<exists>b. (g = b \<or> g = CHR ''-'' # b) \<and> b \<noteq> [] \<and> list_all is_digit b)
                   \<longrightarrow> decodeId t =
                         Some (Data (js_xor (of_int (parseInt a - 37)) 0xB)
                                    (js_xor (of_int (parseInt g - 531) / 17) 0x2A)))
          \<and> ((\<nexists>ds. decoded = CHR ''f'' # ds \<and> ds \<noteq> [] \<and> list_all is_digit ds)
               \<and> (\<nexists>a g. decoded = a @ ''x'' @ g \<and> a \<noteq> [] \<and> list_all is_digit a
                     \<and> (\<exists>b. (g = b \<or> g = CHR ''-'' # b) \<and> b \<noteq> [] \<and> list_all is_digit b))
               \<longrightarrow> decodeId t = None)))"
proof -
  let ?n = "(4 - length t mod 4) mod 4"
  have len: "(length t + ?n) mod 4 = 0"
    using token_padding_range [of t] unfolding token_padding_cases by auto
  have err: "\<forall>e. atob (t @ replicate ?n (CHR ''='')) = Inl e \<longrightarrow> decodeId t = None"
    by (simp add: decodeId_unfold)
  have ok: "\<forall>decoded. atob (t @ replicate ?n (CHR ''='')) = Inr decoded \<longrightarrow>
            (\<forall>ds. decoded = CHR ''f'' # ds \<and> ds \<noteq> [] \<and> list_all is_digit ds
                   \<longrightarrow> decodeId t = Some (Fortune (parseInt ds)))
          \<and> (\<forall>a g. decoded = a @ ''x'' @ g \<and> a \<noteq> [] \<and> list_all is_digit a
                     \<and> (\<exists>b. (g = b \<or> g = CHR ''-'' # b) \<and> b \<noteq> [] \<and> list_all is_digit b)
                   \<longrightarrow> decodeId t =
                         Some (Data (js_xor (of_int (parseInt a - 37)) 0xB)
                                    (js_xor (of_int (parseInt g - 531) / 17) 0x2A)))
          \<and> ((\<nexists>ds. decoded = CHR ''f'' # ds \<and> ds \<noteq> [] \<and> list_all is_digit ds)
               \<and> (\<nexists>a g. decoded = a @ ''x'' @ g \<and> a \<noteq> [] \<and> list_all is_digit a
                     \<and> (\<exists>b. (g = b \<or> g = CHR ''-'' # b) \<and> b \<noteq> [] \<and> list_all is_digit b))
               \<longrightarrow> decodeId t = None)"
  proof (intro allI impI conjI)
    fix decoded ds
    assume a: "atob (t @ replicate ?n (CHR ''='')) = Inr decoded"
      and p: "decoded = CHR ''f'' # ds \<and> ds \<noteq> [] \<and> list_all is_digit ds"
    from p have "match_fortune decoded = Some ds" unfolding match_fortune_iff .
    then show "decodeId t = Some (Fortune (parseInt ds))" by (simp add: decodeId_unfold a)
  next
    fix decoded a g
    assume at: "atob (t @ replicate ?n (CHR ''='')) = Inr decoded"
      and p: "decoded = a @ ''x'' @ g \<and> a \<noteq> [] \<and> list_all is_digit a
               \<and> (\<exists>b. (g = b \<or> g = CHR ''-'' # b) \<and> b \<noteq> [] \<and> list_all is_digit b)"
    from p have m: "match_data decoded = Some (a, g)" unfolding match_data_iff .
    from p obtain c cs where "a = c # cs" "is_digit c" by (cases a) auto
    with p not_digit(3) have "match_fortune decoded = None"
      by (auto simp: match_fortune_def)
    with m show "decodeId t = Some (Data (js_xor (of_int (parseInt a - 37)) 0xB)
                                    (js_xor (of_int (parseInt g - 531) / 17) 0x2A))"
      by (simp add: decodeId_unfold at)
  next
    fix decoded
    assume at: "atob (t @ replicate ?n (CHR ''='')) = Inr decoded"
      and p: "(\<nexists>ds. decoded = CHR ''f'' # ds \<and> ds \<noteq> [] \<and> list_all is_digit ds)
               \<and> (\<nexists>a g. decoded = a @ ''x'' @ g \<and> a \<noteq> [] \<and> list_all is_digit a
                     \<and> (\<exists>b. (g = b \<or> g = CHR ''-'' # b) \<and> b \<noteq> [] \<and> list_all is_digit b))"
    have f: "match_fortune decoded = None"
    proof (cases "match_fortune decoded")
      case None
      then show ?thesis .
    next
      case (Some ds)
      then have "decoded = CHR ''f'' # ds \<and> ds \<noteq> [] \<and> list_all is_digit ds"
        unfolding match_fortune_iff .
      with p show ?thesis by blast
    qed
    have d: "match_data decoded = None"
    proof (cases "match_data decoded")
      case None
      then show ?thesis .
    next
      case (Some ag)
      obtain a g where "ag = (a, g)" by (cases ag)
      with Some have "match_data decoded = Some (a, g)" by simp
      then have "decoded = a @ ''x'' @ g \<and> a \<noteq> [] \<and> list_all is_digit a
          \<and> (\<exists>b. (g = b \<or> g = CHR ''-'' # b) \<and> b \<noteq> [] \<and> list_all is_digit b)"
        unfolding match_data_iff .
      with p show ?thesis by blast
    qed
    show "decodeId t = None" by (simp add: decodeId_unfold at f d)
  qed
  show ?thesis unfolding Let_def using len err ok by (intro conjI)
qed

lemma atob_ZjE: "atob ''ZjE='' = Inr ''f1''"
  by code_simp

theorem decodeId_padding_patterns_witness:
  "decodeId ''ZjE'' = Some (Fortune 1)"
proof -
  have n: "(4 - length ''ZjE'' mod 4) mod 4 = 1" by simp
  have d: "list_all is_digit ''1''" by (simp add: is_digit_def)
  have p: "parseInt ''1'' = 1" by (simp add: parseInt_def parse_digits_def digit_value_def)
  show ?thesis
    using decodeId_padding_patterns [of "''ZjE''"] atob_ZjE d p
    unfolding Let_def n by simp
qed

text \<open>
  Claim C2 as stated fails: the token \<open>ZjE\<close> has length 3, the code appends one padding
  character and decodes it to fortune 1, while \<open>length mod 4 = 3\<close> padding characters
  would make \<open>atob\<close> throw.
\<close>

theorem decodeId_padding_counterexample:
  "length ''ZjE'' mod 4 = 3
   \<and> token_padding ''ZjE'' = 1
   \<and> atob (''ZjE'' @ replicate 1 (CHR ''='')) = Inr ''f1''
   \<and> decodeId ''ZjE'' = Some (Fortune 1)
   \<and> atob (''ZjE'' @ replicate (length ''ZjE'' mod 4) (CHR ''='')) = Inl InvalidCharacterError"
  by code_simp

text \<open>
  Claim C10. For every token \<open>decodeId\<close> returns \<open>null\<close>, a fortune identifier or a data
  identifier. An exception in the \<open>try\<close> block results in \<open>null\<close>: building the padding
  never throws, and when \<open>atob\<close> throws the block ends with that exception and the
  result is \<open>null\<close>.
\<close>

theorem decodeId_total:
  "(decodeId t = None \<or> (\<exists>ts. decodeId t = Some (Fortune ts))
      \<or> (\<exists>h r. decodeId t = Some (Data h r)))
   \<and> (\<forall>e. decodeId_try t = Inl e \<longrightarrow> decodeId t = None)
   \<and> (\<forall>e. String_repeat ''='' (token_padding t) \<noteq> Inl e)
   \<and> (\<forall>e. atob (t @ replicate (nat (token_padding t)) (CHR ''='')) = Inl e
          \<longrightarrow> decodeId_try t = Inl e \<and> decodeId t = None)"
proof (intro conjI allI impI)
  show "decodeId t = None \<or> (\<exists>ts. decodeId t = Some (Fortune ts))
      \<or> (\<exists>h r. decodeId t = Some (Data h r))"
  proof (cases "decodeId t")
    case None
    then show ?thesis by simp
  next
    case (Some i)
    then show ?thesis by (cases i) simp_all
  qed
next
  fix e assume "decodeId_try t = Inl e"
  then show "decodeId t = None" by (simp add: decodeId_def)
next
  fix e
  from token_padding_range [of t] show "String_repeat ''='' (token_padding t) \<noteq> Inl e"
    by auto
next
  fix e assume a: "atob (t @ replicate (nat (token_padding t)) (CHR ''='')) = Inl e"
  from token_padding_range [of t] obtain n where n: "token_padding t = int n"
    and r: "String_repeat ''='' (token_padding t) = Inr (replicate n (CHR ''=''))" by blast
  from a n have "atob (t @ replicate n (CHR ''='')) = Inl e" by simp
  then show "decodeId_try t = Inl e" by (simp add: decodeId_try_def r)
  then show "decodeId t = None" by (simp add: decodeId_def)
qed

lemma atob_bad: "atob (''!!!!'' @ replicate (nat (token_padding ''!!!!'')) (CHR ''=''))
                  = Inl InvalidCharacterError"
  by code_simp

theorem decodeId_total_witness:
  "decodeId ''!!!!'' = None \<and> decodeId_try ''!!!!'' = Inl InvalidCharacterError"
  using decodeId_total [of "''!!!!''"] atob_bad by blast

subsection \<open>Further round trips and examples\<close>

text \<open>The fortune token of a non-negative timestamp decodes to that timestamp.\<close>

lemma decodeId_encodeRandomFortuneTimestamp:
  assumes "0 \<le> timestamp"
  shows "decodeId (encodeRandomFortuneTimestamp timestamp) = Some (Fortune timestamp)"
proof -
  define n where "n = nat timestamp"
  have ts: "Number_toString timestamp = digits_of n"
    using assms by (simp add: Number_toString_def n_def)
  have d: "digits_of n \<noteq> []" "list_all is_digit (digits_of n)"
    using digits_of_digits [of n] by simp_all
  then have m: "match_fortune (CHR ''f'' # digits_of n) = Some (digits_of n)"
    unfolding match_fortune_iff by simp
  have "decodeId (strip_padding (btoa (CHR ''f'' # digits_of n))) = Some (Fortune (int n))"
    unfolding decodeId_def decodeId_try_def token_roundtrip sum.case atob_btoa m option.case
      parseInt_digits
    by simp
  then show ?thesis using assms by (simp add: encodeRandomFortuneTimestamp_def ts n_def)
qed

text \<open>A repeat in one array that the other array does not share is left alone.\<close>

lemma removeRepeatedTail_unsynchronized:
  "removeRepeatedTail (Some [(''a'', Arr [1, 2, 3, 3]), (''b'', Arr [5, 6, 7, 8])])
     = Some [(''a'', Arr [1, 2, 3, 3]), (''b'', Arr [5, 6, 7, 8])]"
  by (simp add: removeRepeatedTail_def allRepeated_def slice_tail_def one_enat_def
      numeral_eq_enat eval_nat_numeral)

end
